theory Spec2Isabelle
  imports Complex_Main "HOL-Library.AList"
begin

section \<open>Rigidification of a deformable body (sofagym/envs/Maze/rigidification.py)\<close>

text \<open>
  The function \<^verbatim>\<open>Rigidify\<close> reads three arrays from the source body
  (\<^verbatim>\<open>container.position\<close>, \<^verbatim>\<open>container.points\<close>, \<^verbatim>\<open>dofs.position\<close>), a list of
  index groups and a list of frame specifications, and builds the containers and index
  tables of the mixed rigid/deformable object. The embedding keeps Python's values:
  indices are unbounded integers (\<open>int\<close>, negative subscripts count from the end),
  exceptions are values of type \<open>error\<close>, the insertion-ordered dictionary \<^verbatim>\<open>Kd\<close> is an
  association list, and the scalars of frames and positions are a type parameter.
\<close>

subsection \<open>Errors and subscripts\<close>

text \<open>
  The exceptions the function can raise. \<open>AssertionError\<close> is the failed size assertion
  (the specification's ArityMismatchError), \<open>NotImplementedError\<close> the unsupported frame
  size (FrameFormatError), \<open>IndexError\<close> a list subscript out of range
  (IndexOutOfRangeError), \<open>TypeError\<close> the iteration over a \<^verbatim>\<open>None\<close> dictionary value,
  \<open>NameError\<close> the use of a name that nothing in the module binds.
\<close>

datatype error = AssertionError | NotImplementedError | IndexError | TypeError | NameError

text \<open>\<^verbatim>\<open>xs[i]\<close> on a Python list: a negative subscript counts from the end.\<close>

definition py_getitem :: "'x list \<Rightarrow> int \<Rightarrow> error + 'x" where
  "py_getitem xs i =
     (if 0 \<le> i \<and> i < int (length xs) then Inr (xs ! nat i)
      else if i < 0 \<and> - int (length xs) \<le> i then Inr (xs ! nat (int (length xs) + i))
      else Inl IndexError)"

subsection \<open>External collaborators\<close>

text \<open>
  \<^verbatim>\<open>Quat.createFromEuler\<close> belongs to the library splib3, and the order in which Python
  iterates over a \<^verbatim>\<open>set\<close> is left open by the language. The two are parameters of the
  model.
\<close>

record 'a externals =
  createFromEuler :: "'a list \<Rightarrow> 'a list"
  list_of_set :: "int set \<Rightarrow> int list"

text \<open>What the language promises of \<^verbatim>\<open>list(s)\<close> for a set \<open>s\<close>: every element once.\<close>

definition lists_set :: "(int set \<Rightarrow> int list) \<Rightarrow> int set \<Rightarrow> bool" where
  "lists_set order S \<longleftrightarrow> set (order S) = S \<and> distinct (order S)"

subsection \<open>The nested function mfilter (lines 78 to 84)\<close>

fun mfilter_loop :: "int list \<Rightarrow> int list \<Rightarrow> 'v list \<Rightarrow> 'v list \<Rightarrow> error + 'v list" where
  "mfilter_loop si [] pts tmp = Inr tmp"
| "mfilter_loop si (i # ai) pts tmp =
     (if i \<in> set si
      then (case py_getitem pts i of
              Inl e \<Rightarrow> Inl e
            | Inr p \<Rightarrow> mfilter_loop si ai pts (tmp @ [p]))
      else mfilter_loop si ai pts tmp)"

definition mfilter :: "int list \<Rightarrow> int list \<Rightarrow> 'v list \<Rightarrow> error + 'v list" where
  "mfilter si ai pts = mfilter_loop si ai pts []"

subsection \<open>The name getBarycenter (lines 97 and 100)\<close>

text \<open>
  The module calls \<^verbatim>\<open>getBarycenter(selectedPoints)\<close>, but no statement of it binds the
  name: it imports \<^verbatim>\<open>sys\<close>, \<^verbatim>\<open>pathlib\<close>, \<^verbatim>\<open>Sofa\<close>, \<^verbatim>\<open>Vec3\<close> and \<^verbatim>\<open>Quat\<close>, and defines
  \<^verbatim>\<open>Rigidify\<close> (with \<^verbatim>\<open>mfilter\<close> inside it) and nothing else. Python looks a global name
  up when the call is evaluated, and raises NameError for a name that is not bound.
\<close>

definition getBarycenter :: "'v list \<Rightarrow> error + 'a list" where
  "getBarycenter selectedPoints = Inl NameError"

subsection \<open>The frame of one group (lines 95 to 111)\<close>

text \<open>
  The \<^verbatim>\<open>if\<close>/\<^verbatim>\<open>elif\<close> chain on \<^verbatim>\<open>len(frames[i])\<close>; the result is the entry appended to
  \<^verbatim>\<open>rigids\<close>, that is \<^verbatim>\<open>poscenter + list(orientation)\<close>.
\<close>

definition synthesize_frame :: "'a externals \<Rightarrow> 'a list \<Rightarrow> 'v list \<Rightarrow> error + 'a list" where
  "synthesize_frame ext frame selectedPoints =
     (if length frame = 3 then
        (let orientation = createFromEuler ext frame in
         case getBarycenter selectedPoints of
           Inl e \<Rightarrow> Inl e
         | Inr poscenter \<Rightarrow> Inr (poscenter @ orientation))
      else if length frame = 4 then
        (let orientation = frame in
         case getBarycenter selectedPoints of
           Inl e \<Rightarrow> Inl e
         | Inr poscenter \<Rightarrow> Inr (poscenter @ orientation))
      else if length frame = 6 then
        (let orientation = createFromEuler ext [frame ! 3, frame ! 4, frame ! 5];
             poscenter = [frame ! 0, frame ! 1, frame ! 2]
         in Inr (poscenter @ orientation))
      else if length frame = 7 then
        (let orientation = [frame ! 3, frame ! 4, frame ! 5, frame ! 6];
             poscenter = [frame ! 0, frame ! 1, frame ! 2]
         in Inr (poscenter @ orientation))
      else Inl NotImplementedError)"

subsection \<open>The loop over the groups (lines 92 to 114)\<close>

text \<open>
  The state of the loop is \<^verbatim>\<open>(rigids, selectedIndices, indicesMap)\<close>; \<open>i\<close> is the loop
  counter. A missing \<^verbatim>\<open>frames[i]\<close> would raise IndexError.
\<close>

fun group_loop ::
  "'a externals \<Rightarrow> int list \<Rightarrow> 'v list \<Rightarrow> int list list \<Rightarrow> 'a list list \<Rightarrow> nat \<Rightarrow>
   'a list list \<times> int list \<times> int list \<Rightarrow> error + ('a list list \<times> int list \<times> int list)" where
  "group_loop ext allIndices sourcePoints [] fs i st = Inr st"
| "group_loop ext allIndices sourcePoints (g # gs) [] i st = Inl IndexError"
| "group_loop ext allIndices sourcePoints (g # gs) (f # fs) i (rigids, selectedIndices, indicesMap) =
     (case mfilter g allIndices sourcePoints of
        Inl e \<Rightarrow> Inl e
      | Inr selectedPoints \<Rightarrow>
          (case synthesize_frame ext f selectedPoints of
             Inl e \<Rightarrow> Inl e
           | Inr rigid \<Rightarrow>
               group_loop ext allIndices sourcePoints gs fs (Suc i)
                 (rigids @ [rigid], selectedIndices @ g, indicesMap @ replicate (length g) (int i))))"

subsection \<open>The dictionary Kd and the index pairs (lines 116 to 121)\<close>

text \<open>
  A Python dictionary keeps its keys in insertion order: storing under a present key
  replaces the value in place, storing under a new key appends it.
\<close>

type_synonym ('k, 'w) dict = "('k \<times> 'w) list"

definition dict_update :: "('k, 'w) dict \<Rightarrow> ('k \<times> 'w) list \<Rightarrow> ('k, 'w) dict" where
  "dict_update d kvs = foldl (\<lambda>d' (k, v). AList.update k v d') d kvs"

definition dict_of :: "('k \<times> 'w) list \<Rightarrow> ('k, 'w) dict" where
  "dict_of kvs = dict_update [] kvs"

definition build_Kd :: "int list \<Rightarrow> int list \<Rightarrow> int list \<Rightarrow> (int, int list option) dict" where
  "build_Kd allIndices otherIndices selectedIndices =
     (let Kd0 = dict_of (map (\<lambda>(k, v). (v, None)) (List.enumerate 0 allIndices));
          Kd1 = dict_update Kd0
                  (dict_of (map (\<lambda>(k, v). (v, Some [0, int k])) (List.enumerate 0 otherIndices)));
          Kd2 = dict_update Kd1
                  (dict_of (map (\<lambda>(k, v). (v, Some [1, int k])) (List.enumerate 0 selectedIndices)))
      in Kd2)"

text \<open>\<^verbatim>\<open>[v for kv in Kd.values() for v in kv]\<close>: iterating over \<^verbatim>\<open>None\<close> raises TypeError.\<close>

fun flatten_values :: "int list option list \<Rightarrow> error + int list" where
  "flatten_values [] = Inr []"
| "flatten_values (None # vs) = Inl TypeError"
| "flatten_values (Some kv # vs) =
     (case flatten_values vs of Inl e \<Rightarrow> Inl e | Inr r \<Rightarrow> Inr (kv @ r))"

text \<open>\<^verbatim>\<open>[allPositions[i] for i in indices]\<close>.\<close>

fun gather :: "'p list \<Rightarrow> int list \<Rightarrow> error + 'p list" where
  "gather ps [] = Inr []"
| "gather ps (i # js) =
     (case py_getitem ps i of
        Inl e \<Rightarrow> Inl e
      | Inr p \<Rightarrow> (case gather ps js of Inl e \<Rightarrow> Inl e | Inr r \<Rightarrow> Inr (p # r)))"

subsection \<open>Rigidify (lines 35 to 154)\<close>

text \<open>
  What the function hands to the scene: the name of the new node, the positions of the
  three mechanical objects, the \<^verbatim>\<open>rigidIndexPerPoint\<close> of the rigid mapping and the
  \<^verbatim>\<open>indexPairs\<close> of the subset multi-mapping. The local variables \<^verbatim>\<open>otherIndices\<close> and
  \<^verbatim>\<open>selectedIndices\<close> are kept beside them.
\<close>

record 'a rigidified =
  node_name :: string
  otherIndices :: "int list"
  selectedIndices :: "int list"
  free_positions :: "'a list list"
  rigids :: "'a list list"
  rigidified_positions :: "'a list list"
  rigidIndexPerPoint :: "int list"
  indexPairs :: "int list"

text \<open>Lines 53 to 60: the deprecated parameter replaces \<^verbatim>\<open>frames\<close>, then the default.\<close>

definition resolve_frames ::
  "int list list \<Rightarrow> ('a::zero) list list option \<Rightarrow> 'a list list option \<Rightarrow> 'a list list" where
  "resolve_frames groupIndices frames frameOrientation =
     (let frames1 = (case frameOrientation of Some fo \<Rightarrow> Some fo | None \<Rightarrow> frames)
      in case frames1 of
           None \<Rightarrow> replicate (length groupIndices) [0, 0, 0]
         | Some fs \<Rightarrow> fs)"

definition Rigidify ::
  "('a::zero) externals \<Rightarrow> string \<Rightarrow> 'a list list \<Rightarrow> int list \<Rightarrow> 'v list \<Rightarrow>
   int list list \<Rightarrow> 'a list list option \<Rightarrow> string option \<Rightarrow> 'a list list option \<Rightarrow>
   error + 'a rigidified" where
  "Rigidify ext sourceName allPositions allIndices sourcePoints groupIndices frames name frameOrientation =
     (let frames' = resolve_frames groupIndices frames frameOrientation
      in if length groupIndices \<noteq> length frames' then Inl AssertionError
         else
           let name' = (case name of None \<Rightarrow> sourceName | Some n \<Rightarrow> n)
           in case group_loop ext allIndices sourcePoints groupIndices frames' 0 ([], [], []) of
                Inl e \<Rightarrow> Inl e
              | Inr (rigids', selectedIndices', indicesMap) \<Rightarrow>
                  (let otherIndices' = list_of_set ext (set allIndices - set selectedIndices');
                       Kd = build_Kd allIndices otherIndices' selectedIndices'
                   in case flatten_values (map snd Kd) of
                        Inl e \<Rightarrow> Inl e
                      | Inr indexPairs' \<Rightarrow>
                          (case gather allPositions otherIndices' of
                             Inl e \<Rightarrow> Inl e
                           | Inr freePositions \<Rightarrow>
                               (case gather allPositions selectedIndices' of
                                  Inl e \<Rightarrow> Inl e
                                | Inr rigidifiedPositions \<Rightarrow>
                                    Inr \<lparr> node_name = name',
                                          otherIndices = otherIndices',
                                          selectedIndices = selectedIndices',
                                          free_positions = freePositions,
                                          rigids = rigids',
                                          rigidified_positions = rigidifiedPositions,
                                          rigidIndexPerPoint = indicesMap,
                                          indexPairs = indexPairs' \<rparr>))))"


section \<open>Notions of the specification\<close>

subsection \<open>Local indices and the index-pair sequence\<close>

text \<open>
  The position of the first and of the last occurrence of a value in a list. For a
  list without repetition both agree; \<^verbatim>\<open>Kd\<close> keeps the last one, as a later dictionary
  entry overwrites an earlier one.
\<close>

fun index_of :: "'k list \<Rightarrow> 'k \<Rightarrow> nat" where
  "index_of [] v = 0"
| "index_of (x # xs) v = (if x = v then 0 else Suc (index_of xs v))"

fun last_index_of :: "'k list \<Rightarrow> 'k \<Rightarrow> nat" where
  "last_index_of [] v = 0"
| "last_index_of (x # xs) v = (if v \<in> set xs then Suc (last_index_of xs v) else 0)"

definition Kd_pair :: "int list \<Rightarrow> int list \<Rightarrow> int \<Rightarrow> int list" where
  "Kd_pair other sel v =
     (if v \<in> set sel then [1, int (last_index_of sel v)] else [0, int (last_index_of other v)])"

text \<open>
  The sequence as the specification words it (section 4.4): go through the global
  indices \<open>0, \<dots>, n - 1\<close> in ascending order and emit \<open>(0, local index)\<close> for a free
  index, \<open>(1, local index)\<close> for a rigidified one, the local index being the position in
  the free respectively rigidified container.
\<close>

definition emit_pair :: "int list \<Rightarrow> int list \<Rightarrow> int \<Rightarrow> int list" where
  "emit_pair free rigidified i =
     (if i \<in> set rigidified then [1, int (index_of rigidified i)] else [0, int (index_of free i)])"

definition spec_indexPairs :: "nat \<Rightarrow> int list \<Rightarrow> int list \<Rightarrow> int list" where
  "spec_indexPairs n free rigidified = concat (map (emit_pair free rigidified) (map int [0..<n]))"

text \<open>Decoding: each pair names a container and a place in it, hence a global index.\<close>

fun decode_pairs :: "int list \<Rightarrow> int list \<Rightarrow> int list \<Rightarrow> int list" where
  "decode_pairs free rigidified (tag # k # rest) =
     (if tag = 0 then free ! nat k else rigidified ! nat k) # decode_pairs free rigidified rest"
| "decode_pairs free rigidified rest = []"

text \<open>
  Reading the point of global index \<open>i\<close> back through the index pairs, as the subset
  multi-mapping does: pair \<open>i\<close> selects the free or the rigidified container and a
  subscript in it.
\<close>

definition read_back :: "'a rigidified \<Rightarrow> nat \<Rightarrow> error + 'a list" where
  "read_back d i =
     (if length (indexPairs d) < 2 * i + 2 then Inl IndexError
      else if indexPairs d ! (2 * i) = 0
        then py_getitem (free_positions d) (indexPairs d ! (2 * i + 1))
      else if indexPairs d ! (2 * i) = 1
        then py_getitem (rigidified_positions d) (indexPairs d ! (2 * i + 1))
      else Inl IndexError)"

subsection \<open>Groups of a body of n points\<close>

text \<open>Every index of every group is a global index of the body.\<close>

definition groups_in_range :: "nat \<Rightarrow> int list list \<Rightarrow> bool" where
  "groups_in_range n groupIndices \<longleftrightarrow>
     (\<forall>g \<in> set groupIndices. \<forall>j \<in> set g. 0 \<le> j \<and> j < int n)"

text \<open>
  Every index of every group is a valid subscript of a Python list of \<open>n\<close> elements:
  the negative subscripts \<open>- n, \<dots>, - 1\<close> count from the end.
\<close>

definition groups_subscriptable :: "nat \<Rightarrow> int list list \<Rightarrow> bool" where
  "groups_subscriptable n groupIndices \<longleftrightarrow>
     (\<forall>g \<in> set groupIndices. \<forall>j \<in> set g. - int n \<le> j \<and> j < int n)"

text \<open>
  The owner of each rigidified point: group \<open>j\<close> contributes its ordinal once per index
  it lists.
\<close>

definition owner_per_point :: "int list list \<Rightarrow> int list" where
  "owner_per_point groupIndices =
     concat (map (\<lambda>(j, g). replicate (length g) (int j)) (List.enumerate 0 groupIndices))"

subsection \<open>Frames\<close>

text \<open>
  The points \<^verbatim>\<open>mfilter\<close> selects for a group when every entry of \<^verbatim>\<open>allIndices\<close> is a
  valid subscript of the source points.
\<close>

definition selected_points :: "int list \<Rightarrow> 'v list \<Rightarrow> int list \<Rightarrow> 'v list" where
  "selected_points allIndices sourcePoints g =
     map (\<lambda>i. sourcePoints ! nat i) (filter (\<lambda>i. i \<in> set g) allIndices)"

text \<open>
  The frame sizes for which the function has a branch, and among them those whose branch
  does not call \<^verbatim>\<open>getBarycenter\<close>: the frames with an explicit position, of 6 or 7
  scalars.
\<close>

definition supported_arity :: "'a list \<Rightarrow> bool" where
  "supported_arity f \<longleftrightarrow> length f = 3 \<or> length f = 4 \<or> length f = 6 \<or> length f = 7"

definition frame_ok :: "'a list \<Rightarrow> bool" where
  "frame_ok f \<longleftrightarrow> length f = 6 \<or> length f = 7"

definition all_frames_ok :: "'a list list \<Rightarrow> bool" where
  "all_frames_ok fs \<longleftrightarrow> list_all frame_ok fs"

text \<open>
  An entry of \<^verbatim>\<open>rigids\<close> is a position followed by a quaternion \<open>(qx, qy, qz, qw)\<close>;
  the orientation is its last four scalars. A quaternion is normalized when its squared
  norm is one.
\<close>

definition orientation_of :: "'a list \<Rightarrow> 'a list" where
  "orientation_of rigid = drop (length rigid - 4) rigid"

definition unit_quaternion :: "('a::semiring_1) list \<Rightarrow> bool" where
  "unit_quaternion q \<longleftrightarrow>
     length q = 4 \<and> q ! 0 * q ! 0 + q ! 1 * q ! 1 + q ! 2 * q ! 2 + q ! 3 * q ! 3 = 1"

subsection \<open>Concrete runs\<close>

text \<open>
  Two ways a runtime may list a set of integers: in ascending order, and by the slot
  \<open>i mod 8\<close> of a hash table with eight slots, elements of one slot in ascending order.
  The second is how CPython lists a set of at most four non-negative integers no two of
  which share a slot, such as \<open>{1, 8}\<close>: \<^verbatim>\<open>list({1, 8})\<close> is \<^verbatim>\<open>[8, 1]\<close>. For elements that
  share a slot, and for larger sets, CPython's order depends on the size and the probing
  of its table, which \<open>slot_order\<close> does not follow; below it lists \<open>{1, 8}\<close> only.
\<close>

definition slot_order :: "int set \<Rightarrow> int list" where
  "slot_order S = sort_key (\<lambda>i. i mod 8) (sorted_list_of_set S)"

text \<open>
  The concrete runs convert the Euler angles \<open>(0, 0, 0)\<close> only, for which the library
  returns the identity quaternion \<open>(0, 0, 0, 1)\<close>.
\<close>

definition example_ext :: "real externals" where
  "example_ext = \<lparr> createFromEuler = (\<lambda>e. [0, 0, 0, 1]), list_of_set = sorted_list_of_set \<rparr>"

definition slot_ext :: "real externals" where
  "slot_ext = \<lparr> createFromEuler = (\<lambda>e. [0, 0, 0, 1]), list_of_set = slot_order \<rparr>"

text \<open>A body of \<open>n\<close> points on a line, point \<open>i\<close> at \<open>(i, 0, 0)\<close>.\<close>

definition line_positions :: "nat \<Rightarrow> real list list" where
  "line_positions n = map (\<lambda>i. [real i, 0, 0]) [0..<n]"

definition line_points :: "nat \<Rightarrow> (real \<times> real \<times> real) list" where
  "line_points n = map (\<lambda>i. (real i, 0, 0)) [0..<n]"

text \<open>
  The example of the specification, with the frame given as a pose: five points, one
  group \<open>[1, 3]\<close>, the position \<open>(2, 0, 0)\<close> and the identity quaternion or the Euler
  angles \<open>(0, 0, 0)\<close>.
\<close>

definition five_point_result :: "real rigidified" where
  "five_point_result =
     \<lparr> node_name = ''body'', otherIndices = [0, 2, 4], selectedIndices = [1, 3],
       free_positions = [[0, 0, 0], [2, 0, 0], [4, 0, 0]],
       rigids = [[2, 0, 0, 0, 0, 0, 1]],
       rigidified_positions = [[1, 0, 0], [3, 0, 0]],
       rigidIndexPerPoint = [0, 0],
       indexPairs = [0, 0, 1, 0, 0, 1, 1, 1, 0, 2] \<rparr>"

text \<open>Three points, group \<open>[1]\<close>, a pose whose quaternion \<open>(0, 0, 0, 2)\<close> has norm two.\<close>

definition doubled_quaternion_result :: "real rigidified" where
  "doubled_quaternion_result =
     \<lparr> node_name = ''body'', otherIndices = [0, 2], selectedIndices = [1],
       free_positions = [[0, 0, 0], [2, 0, 0]],
       rigids = [[0, 0, 0, 0, 0, 0, 2]],
       rigidified_positions = [[1, 0, 0]],
       rigidIndexPerPoint = [0],
       indexPairs = [0, 0, 1, 0, 0, 1] \<rparr>"

text \<open>
  Nine points, group \<open>[0, 2, 3, 4, 5, 6, 7]\<close>, the set listed in slot order: the free
  indices are \<open>1\<close> and \<open>8\<close>.
\<close>

definition nine_point_result :: "real rigidified" where
  "nine_point_result =
     \<lparr> node_name = ''body'', otherIndices = [8, 1], selectedIndices = [0, 2, 3, 4, 5, 6, 7],
       free_positions = [[8, 0, 0], [1, 0, 0]],
       rigids = [[0, 0, 0, 0, 0, 0, 1]],
       rigidified_positions =
         [[0, 0, 0], [2, 0, 0], [3, 0, 0], [4, 0, 0], [5, 0, 0], [6, 0, 0], [7, 0, 0]],
       rigidIndexPerPoint = [0, 0, 0, 0, 0, 0, 0],
       indexPairs = [1, 0, 0, 1, 1, 1, 1, 2, 1, 3, 1, 4, 1, 5, 1, 6, 0, 0] \<rparr>"

text \<open>Three points, group \<open>[- 1]\<close>.\<close>

definition negative_index_result :: "real rigidified" where
  "negative_index_result =
     \<lparr> node_name = ''body'', otherIndices = [0, 1, 2], selectedIndices = [- 1],
       free_positions = [[0, 0, 0], [1, 0, 0], [2, 0, 0]],
       rigids = [[0, 0, 0, 0, 0, 0, 1]],
       rigidified_positions = [[2, 0, 0]],
       rigidIndexPerPoint = [0],
       indexPairs = [0, 0, 0, 1, 0, 2, 1, 0] \<rparr>"

text \<open>Three points, two groups that both list index \<open>0\<close>.\<close>

definition overlap_result :: "real rigidified" where
  "overlap_result =
     \<lparr> node_name = ''body'', otherIndices = [1, 2], selectedIndices = [0, 0],
       free_positions = [[1, 0, 0], [2, 0, 0]],
       rigids = [[0, 0, 0, 0, 0, 0, 1], [0, 0, 0, 0, 0, 0, 1]],
       rigidified_positions = [[0, 0, 0], [0, 0, 0]],
       rigidIndexPerPoint = [0, 1],
       indexPairs = [1, 1, 0, 0, 0, 1] \<rparr>"


section \<open>The scene around Rigidify\<close>

text \<open>
  Besides computing the tables above, the function changes the scene through the
  scene-graph interface of the engine: line 68 adds a child node to the target, lines
  137 to 139 look up three components of the source body by name and remove them, line
  148 adds the coupling mapping to the source body or to its owning node. The function
  itself has no test of whether the source body was rigidified before.
\<close>











section \<open>Auxiliary facts\<close>

subsection \<open>Subscripts and gathered positions\<close>

lemma py_getitem_nonneg:
  "0 \<le> i \<Longrightarrow> i < int (length xs) \<Longrightarrow> py_getitem xs i = Inr (xs ! nat i)"
  by (simp add: py_getitem_def)

lemma py_getitem_Inl_iff:
  "py_getitem xs i = Inl e \<longleftrightarrow>
     e = IndexError \<and> (int (length xs) \<le> i \<or> i < - int (length xs))"
  by (auto simp: py_getitem_def)

lemma py_getitem_Inr_iff:
  "(\<exists>p. py_getitem xs i = Inr p) \<longleftrightarrow> - int (length xs) \<le> i \<and> i < int (length xs)"
  by (auto simp: py_getitem_def)

lemma gather_Inl_iff:
  "gather ps js = Inl e \<longleftrightarrow>
     e = IndexError \<and> (\<exists>j \<in> set js. int (length ps) \<le> j \<or> j < - int (length ps))"
proof (induction js)
  case Nil
  then show ?case by simp
next
  case (Cons i js)
  show ?case
  proof (cases "py_getitem ps i")
    case (Inl e')
    then show ?thesis using py_getitem_Inl_iff [of ps i e'] by auto
  next
    case (Inr p)
    then have ok: "\<not> (int (length ps) \<le> i \<or> i < - int (length ps))"
      using py_getitem_Inr_iff [of ps i] by auto
    show ?thesis using Inr ok Cons.IH by (auto split: sum.splits)
  qed
qed

lemma gather_Inr_nth:
  "gather ps js = Inr r \<Longrightarrow>
     length r = length js \<and> (\<forall>k < length js. py_getitem ps (js ! k) = Inr (r ! k))"
proof (induction js arbitrary: r)
  case Nil
  then show ?case by simp
next
  case (Cons i js)
  from Cons.prems obtain p r' where p: "py_getitem ps i = Inr p" and r': "gather ps js = Inr r'"
    and r: "r = p # r'"
    by (auto split: sum.splits)
  from Cons.IH [OF r'] show ?case using p r by (auto simp: nth_Cons split: nat.splits)
qed

lemma gather_total:
  "\<forall>j \<in> set js. - int (length ps) \<le> j \<and> j < int (length ps) \<Longrightarrow> \<exists>r. gather ps js = Inr r"
proof (cases "gather ps js")
  case (Inl e)
  assume "\<forall>j \<in> set js. - int (length ps) \<le> j \<and> j < int (length ps)"
  with Inl gather_Inl_iff [of ps js e] show ?thesis by fastforce
next
  case (Inr r)
  then show ?thesis by blast
qed

lemma gather_Inr_map:
  assumes "gather ps js = Inr r"
  shows "r = map (\<lambda>j. if 0 \<le> j then ps ! nat j else ps ! nat (int (length ps) + j)) js"
proof (rule nth_equalityI)
  from gather_Inr_nth [OF assms] show "length r =
      length (map (\<lambda>j. if 0 \<le> j then ps ! nat j else ps ! nat (int (length ps) + j)) js)"
    by simp
next
  fix k assume "k < length r"
  with gather_Inr_nth [OF assms] have k: "k < length js"
    and g: "py_getitem ps (js ! k) = Inr (r ! k)" by simp_all
  from g have "r ! k = (if 0 \<le> js ! k then ps ! nat (js ! k) else ps ! nat (int (length ps) + js ! k))"
    by (auto simp: py_getitem_def split: if_splits)
  with k show "r ! k =
      map (\<lambda>j. if 0 \<le> j then ps ! nat j else ps ! nat (int (length ps) + j)) js ! k"
    by simp
qed

subsection \<open>The point filter\<close>

lemma mfilter_loop_Inl:
  "mfilter_loop si ai pts tmp = Inl e \<Longrightarrow> e = IndexError"
  by (induction ai arbitrary: tmp) (auto simp: py_getitem_Inl_iff split: if_splits sum.splits)

lemma mfilter_loop_in_range:
  "\<forall>i \<in> set ai. 0 \<le> i \<and> i < int (length pts) \<Longrightarrow>
   mfilter_loop si ai pts tmp = Inr (tmp @ map (\<lambda>i. pts ! nat i) (filter (\<lambda>i. i \<in> set si) ai))"
  by (induction ai arbitrary: tmp) (auto simp: py_getitem_nonneg)

lemma mfilter_in_range:
  "\<forall>i \<in> set ai. 0 \<le> i \<and> i < int (length pts) \<Longrightarrow>
   mfilter si ai pts = Inr (map (\<lambda>i. pts ! nat i) (filter (\<lambda>i. i \<in> set si) ai))"
  by (simp add: mfilter_def mfilter_loop_in_range)

lemma mfilter_selected_points:
  "\<forall>i \<in> set ai. 0 \<le> i \<and> i < int (length sp) \<Longrightarrow> mfilter g ai sp = Inr (selected_points ai sp g)"
  by (simp add: selected_points_def mfilter_in_range)

subsection \<open>Frames and the loop over the groups\<close>

lemma synthesize_frame_ok:
  "frame_ok f \<Longrightarrow> \<exists>r. synthesize_frame ext f pts = Inr r"
  by (auto simp: frame_ok_def synthesize_frame_def Let_def)

lemma synthesize_frame_offset:
  "length f = 3 \<or> length f = 4 \<Longrightarrow> synthesize_frame ext f pts = Inl NameError"
  by (auto simp: synthesize_frame_def getBarycenter_def Let_def)

lemma synthesize_frame_unsupported:
  "\<not> supported_arity f \<Longrightarrow> synthesize_frame ext f pts = Inl NotImplementedError"
  by (simp add: supported_arity_def synthesize_frame_def)

lemma synthesize_frame_Inr_frame_ok:
  "synthesize_frame ext f pts = Inr r \<Longrightarrow> frame_ok f"
  by (auto simp: frame_ok_def synthesize_frame_def getBarycenter_def Let_def split: if_splits)

lemma take3_nth: "3 \<le> length f \<Longrightarrow> take 3 f = [f ! 0, f ! 1, f ! 2]"
proof -
  assume "3 \<le> length f"
  then obtain a b c r where "f = a # b # c # r"
    by (cases f; cases "tl f"; cases "tl (tl f)") auto
  then show ?thesis by simp
qed

lemma drop3_nth: "length f = 6 \<Longrightarrow> drop 3 f = [f ! 3, f ! 4, f ! 5]"
proof -
  assume "length f = 6"
  then obtain a b c x y z where "f = [a, b, c, x, y, z]"
    by (auto simp: eval_nat_numeral length_Suc_conv)
  then show ?thesis by simp
qed

lemma list7_nth: "length f = 7 \<Longrightarrow> [f ! 0, f ! 1, f ! 2, f ! 3, f ! 4, f ! 5, f ! 6] = f"
proof -
  assume "length f = 7"
  then obtain a b c x y z w where "f = [a, b, c, x, y, z, w]"
    by (auto simp: eval_nat_numeral length_Suc_conv)
  then show ?thesis by simp
qed

lemma rigid_entry_cases:
  assumes fr: "synthesize_frame ext f pts = Inr r"
  shows "(length f = 6 \<longrightarrow> r = take 3 f @ createFromEuler ext (drop 3 f)) \<and>
         (length f = 7 \<longrightarrow> r = f)"
proof (intro conjI impI)
  assume l: "length f = 6"
  from fr l show "r = take 3 f @ createFromEuler ext (drop 3 f)"
    by (simp add: synthesize_frame_def Let_def take3_nth [of f] drop3_nth [OF l])
next
  assume l: "length f = 7"
  from fr l have "r = [f ! 0, f ! 1, f ! 2, f ! 3, f ! 4, f ! 5, f ! 6]"
    by (simp add: synthesize_frame_def Let_def)
  then show "r = f" by (simp only: list7_nth [OF l])
qed

lemma orientation_of_append: "length q = 4 \<Longrightarrow> orientation_of (c @ q) = q"
  by (simp add: orientation_of_def)

lemma orientation_of_seven: "length f = 7 \<Longrightarrow> orientation_of f = drop 3 f"
  by (simp add: orientation_of_def)

lemma group_loop_Inr:
  "group_loop ext ai sp gs fs i (r, s, m) = Inr (r', s', m') \<Longrightarrow>
   s' = s @ concat gs \<and> length r' = length r + length gs \<and> length gs \<le> length fs \<and>
   m' = m @ concat (map (\<lambda>(j, g). replicate (length g) (int j)) (List.enumerate i gs)) \<and>
   take (length r) r' = r \<and>
   (\<forall>j < length gs. \<exists>pts. mfilter (gs ! j) ai sp = Inr pts \<and>
       synthesize_frame ext (fs ! j) pts = Inr (r' ! (length r + j)))"
proof (induction gs arbitrary: fs i r s m)
  case Nil
  then show ?case by simp
next
  case (Cons g gs)
  from Cons.prems obtain f fs' where fs: "fs = f # fs'" by (cases fs) auto
  from Cons.prems fs obtain pts rigid where
    pts: "mfilter g ai sp = Inr pts" and rigid: "synthesize_frame ext f pts = Inr rigid" and
    rest: "group_loop ext ai sp gs fs' (Suc i) (r @ [rigid], s @ g, m @ replicate (length g) (int i)) = Inr (r', s', m')"
    by (auto split: sum.splits)
  note IH = Cons.IH [OF rest]
  have tk: "take (length r) r' = r"
  proof -
    from IH have "take (length (r @ [rigid])) r' = r @ [rigid]" by simp
    then have "take (length r) (take (length (r @ [rigid])) r') = take (length r) (r @ [rigid])" by simp
    then show ?thesis by (simp add: min_def)
  qed
  have hd: "r' ! length r = rigid"
  proof -
    from IH have "take (length (r @ [rigid])) r' = r @ [rigid]" by simp
    then have "(take (length (r @ [rigid])) r') ! length r = (r @ [rigid]) ! length r" by simp
    then show ?thesis by simp
  qed
  have frames: "\<forall>j < length (g # gs). \<exists>pts. mfilter ((g # gs) ! j) ai sp = Inr pts \<and>
       synthesize_frame ext (fs ! j) pts = Inr (r' ! (length r + j))"
  proof (intro allI impI)
    fix j assume j: "j < length (g # gs)"
    show "\<exists>pts. mfilter ((g # gs) ! j) ai sp = Inr pts \<and>
       synthesize_frame ext (fs ! j) pts = Inr (r' ! (length r + j))"
    proof (cases j)
      case 0
      then show ?thesis using pts rigid hd fs by simp
    next
      case (Suc j')
      with j have "j' < length gs" by simp
      with IH obtain pts' where "mfilter (gs ! j') ai sp = Inr pts'"
        "synthesize_frame ext (fs' ! j') pts' = Inr (r' ! (length (r @ [rigid]) + j'))" by blast
      then show ?thesis using Suc fs by simp
    qed
  qed
  from IH fs tk frames show ?case by (simp add: enumerate_simps)
qed

lemma group_loop_succeeds:
  assumes "\<forall>i \<in> set ai. 0 \<le> i \<and> i < int (length sp)"
    and "length gs = length fs"
    and "\<forall>j < length gs. frame_ok (fs ! j)"
  shows "\<exists>rig sel imap. group_loop ext ai sp gs fs i (r, s, m) = Inr (rig, sel, imap)"
  using assms(2,3)
proof (induction gs arbitrary: fs i r s m)
  case Nil
  then show ?case by simp
next
  case (Cons g gs)
  from Cons.prems(1) obtain f fs' where fs: "fs = f # fs'" by (cases fs) auto
  from Cons.prems(2) fs have "frame_ok f" by auto
  from synthesize_frame_ok [OF this] obtain rigid where
    rigid: "synthesize_frame ext f (selected_points ai sp g) = Inr rigid" ..
  have len: "length gs = length fs'" using Cons.prems(1) fs by simp
  have rest: "\<forall>j < length gs. frame_ok (fs' ! j)"
    using Cons.prems(2) fs by auto
  from Cons.IH [OF len rest] show ?case
    by (simp add: fs mfilter_selected_points [OF assms(1)] rigid)
qed

lemma group_loop_fails_at:
  assumes "\<forall>i \<in> set ai. 0 \<le> i \<and> i < int (length sp)"
    and "length gs = length fs"
    and "k < length fs"
    and "synthesize_frame ext (fs ! k) (selected_points ai sp (gs ! k)) = Inl e"
    and "\<forall>j < k. frame_ok (fs ! j)"
  shows "group_loop ext ai sp gs fs i (r, s, m) = Inl e"
  using assms(2-5)
proof (induction gs arbitrary: fs k i r s m)
  case Nil
  then show ?case by simp
next
  case (Cons g gs)
  from Cons.prems(1) obtain f fs' where fs: "fs = f # fs'" by (cases fs) auto
  note mf = mfilter_selected_points [OF assms(1), of g]
  show ?case
  proof (cases k)
    case 0
    with Cons.prems(3) fs show ?thesis by (simp add: mf)
  next
    case (Suc k')
    from Cons.prems(4) Suc fs have "frame_ok f" by auto
    from synthesize_frame_ok [OF this] obtain rigid where
      rigid: "synthesize_frame ext f (selected_points ai sp g) = Inr rigid" ..
    have len: "length gs = length fs'" using Cons.prems(1) fs by simp
    have k': "k' < length fs'" using Cons.prems(2) Suc fs by simp
    have bad: "synthesize_frame ext (fs' ! k') (selected_points ai sp (gs ! k')) = Inl e"
      using Cons.prems(3) Suc fs by simp
    have rest: "\<forall>j < k'. frame_ok (fs' ! j)"
      using Cons.prems(4) Suc fs by auto
    from Cons.IH [OF len k' bad rest] show ?thesis
      by (simp add: fs mf rigid)
  qed
qed

lemma group_loop_owner:
  "group_loop ext ai sp gs fs 0 ([], [], []) = Inr (r, s, m) \<Longrightarrow> m = owner_per_point gs"
  using group_loop_Inr [of ext ai sp gs fs 0 "[]" "[]" "[]" r s m]
  by (simp add: owner_per_point_def)

subsection \<open>Insertion-ordered dictionaries\<close>

lemma dict_update_Nil: "dict_update d [] = d"
  by (simp add: dict_update_def)

lemma dict_update_Cons: "dict_update d ((k, v) # kvs) = dict_update (AList.update k v d) kvs"
  by (simp add: dict_update_def)

lemma dict_update_fresh:
  "distinct (map fst kvs) \<Longrightarrow> set (map fst d) \<inter> set (map fst kvs) = {} \<Longrightarrow>
   dict_update d kvs = d @ kvs"
proof (induction kvs arbitrary: d)
  case Nil
  then show ?case by (simp add: dict_update_Nil)
next
  case (Cons kv kvs)
  obtain k v where kv: "kv = (k, v)" by (cases kv)
  have fresh: "k \<notin> fst ` set d" using Cons.prems kv by auto
  have upd: "AList.update k v d = d @ [(k, v)]"
    using fresh by (induction d) auto
  have "dict_update (d @ [(k, v)]) kvs = (d @ [(k, v)]) @ kvs"
    using Cons.prems kv by (intro Cons.IH) auto
  then show ?case by (simp add: kv dict_update_Cons upd)
qed

lemma dict_of_distinct: "distinct (map fst kvs) \<Longrightarrow> dict_of kvs = kvs"
  using dict_update_fresh [of kvs "[]"] by (simp add: dict_of_def)

lemma dict_update_distinct:
  "distinct (map fst d) \<Longrightarrow> distinct (map fst (dict_update d kvs))"
proof (induction kvs arbitrary: d)
  case Nil
  then show ?case by (simp add: dict_update_Nil)
next
  case (Cons kv kvs)
  then show ?case by (cases kv) (simp add: dict_update_Cons distinct_update)
qed

lemma dict_of_distinct_keys: "distinct (map fst (dict_of kvs))"
  by (simp add: dict_of_def dict_update_distinct)

lemma map_of_dict_update:
  "map_of (dict_update d kvs) = map_of d ++ map_of (rev kvs)"
proof (induction kvs arbitrary: d)
  case Nil
  then show ?case by (simp add: dict_update_Nil)
next
  case (Cons kv kvs)
  obtain k v where kv: "kv = (k, v)" by (cases kv)
  have "map_of (dict_update d (kv # kvs)) = (map_of d)(k \<mapsto> v) ++ map_of (rev kvs)"
    by (simp only: kv dict_update_Cons Cons.IH update_conv')
  also have "(map_of d)(k \<mapsto> v) = map_of d ++ [k \<mapsto> v]" by simp
  also have "(map_of d ++ [k \<mapsto> v]) ++ map_of (rev kvs) = map_of d ++ ([k \<mapsto> v] ++ map_of (rev kvs))"
    by (simp only: map_add_assoc)
  also have "[k \<mapsto> v] ++ map_of (rev kvs) = map_of (rev (kv # kvs))"
    by (simp add: kv)
  finally show ?case .
qed

lemma map_of_dict_of: "map_of (dict_of kvs) = map_of (rev kvs)"
  by (simp add: dict_of_def map_of_dict_update)

lemma keys_dict_update_subset:
  "fst ` set kvs \<subseteq> fst ` set d \<Longrightarrow> map fst (dict_update d kvs) = map fst d"
proof (induction kvs arbitrary: d)
  case Nil
  then show ?case by (simp add: dict_update_Nil)
next
  case (Cons kv kvs)
  obtain k v where kv: "kv = (k, v)" by (cases kv)
  have keys: "map fst (AList.update k v d) = map fst d"
    using Cons.prems kv by (simp add: update_keys)
  have "map fst (dict_update (AList.update k v d) kvs) = map fst (AList.update k v d)"
  proof (rule Cons.IH)
    have "fst ` set (AList.update k v d) = set (map fst (AList.update k v d))" by simp
    also have "\<dots> = fst ` set d" by (simp only: keys) simp
    finally show "fst ` set kvs \<subseteq> fst ` set (AList.update k v d)" using Cons.prems by auto
  qed
  then show ?case by (simp add: kv dict_update_Cons keys)
qed

lemma keys_dict_update:
  "fst ` set (dict_update d kvs) = fst ` set d \<union> fst ` set kvs"
proof -
  have "dom (map_of (dict_update d kvs)) = dom (map_of d) \<union> dom (map_of (rev kvs))"
    by (simp add: map_of_dict_update Un_commute)
  then show ?thesis by (simp add: dom_map_of_conv_image_fst)
qed

lemma keys_dict_of: "fst ` set (dict_of kvs) = fst ` set kvs"
proof -
  have "dom (map_of (dict_of kvs)) = dom (map_of (rev kvs))" by (simp add: map_of_dict_of)
  then show ?thesis by (simp add: dom_map_of_conv_image_fst)
qed

lemma values_by_keys:
  "distinct (map fst d) \<Longrightarrow> map snd d = map (\<lambda>k. the (map_of d k)) (map fst d)"
proof (induction d)
  case Nil
  then show ?case by simp
next
  case (Cons kv d)
  obtain k v where kv: "kv = (k, v)" by (cases kv)
  have fresh: "k \<notin> set (map fst d)" and dist: "distinct (map fst d)"
    using Cons.prems kv by simp_all
  have "map (\<lambda>k'. the (map_of (kv # d) k')) (map fst d) = map (\<lambda>k'. the (map_of d k')) (map fst d)"
  proof (rule map_cong [OF refl])
    fix k' assume "k' \<in> set (map fst d)"
    with fresh have "k' \<noteq> k" by blast
    then show "the (map_of (kv # d) k') = the (map_of d k')" by (simp add: kv)
  qed
  with Cons.IH [OF dist] show ?case by (simp add: kv)
qed

lemma map_of_rev_distinct:
  "distinct (map fst kvs) \<Longrightarrow> map_of (rev kvs) = map_of kvs"
  by (rule map_of_inject_set [THEN iffD2]) (simp_all add: rev_map [symmetric])

subsection \<open>Positions in a list\<close>

lemma last_index_of_distinct:
  "distinct xs \<Longrightarrow> v \<in> set xs \<Longrightarrow> last_index_of xs v = index_of xs v"
  by (induction xs) auto

lemma last_index_of_nth:
  "v \<in> set xs \<Longrightarrow> last_index_of xs v < length xs \<and> xs ! last_index_of xs v = v"
  by (induction xs) auto

lemma index_of_nth:
  "v \<in> set xs \<Longrightarrow> index_of xs v < length xs \<and> xs ! index_of xs v = v"
  by (induction xs) auto

lemma index_of_nth_distinct:
  "distinct xs \<Longrightarrow> k < length xs \<Longrightarrow> index_of xs (xs ! k) = k"
proof (induction xs arbitrary: k)
  case Nil
  then show ?case by simp
next
  case (Cons x xs)
  then show ?case by (cases k) auto
qed

lemma map_of_rev_enumerate:
  "map_of (rev (map (\<lambda>(k, v). (v, f k)) (List.enumerate n xs))) v =
     (if v \<in> set xs then Some (f (n + last_index_of xs v)) else None)"
proof (induction xs arbitrary: n)
  case Nil
  then show ?case by simp
next
  case (Cons x xs)
  have "map_of (rev (map (\<lambda>(k, v). (v, f k)) (List.enumerate n (x # xs)))) v =
        (map_of [(x, f n)] ++ map_of (rev (map (\<lambda>(k, v). (v, f k)) (List.enumerate (Suc n) xs)))) v"
    by (simp only: enumerate_simps list.map rev.simps map_of_append prod.case)
  also have "\<dots> = (if v \<in> set xs then Some (f (Suc n + last_index_of xs v))
                   else if v = x then Some (f n) else None)"
    by (simp add: map_add_def Cons.IH)
  finally show ?case by auto
qed

lemma keys_enumerate_items:
  "map fst (map (\<lambda>(k, v). (v, f k)) (List.enumerate n xs)) = xs"
  by (induction xs arbitrary: n) simp_all

subsection \<open>The dictionary Kd\<close>

lemma map_of_build_Kd:
  "map_of (build_Kd all other sel) v =
     (if v \<in> set sel then Some (Some [1, int (last_index_of sel v)])
      else if v \<in> set other then Some (Some [0, int (last_index_of other v)])
      else if v \<in> set all then Some None else None)"
proof -
  have s: "map_of (rev (dict_of (map (\<lambda>(k, v). (v, Some [1, int k])) (List.enumerate 0 sel)))) v =
        (if v \<in> set sel then Some (Some [1, int (last_index_of sel v)]) else None)"
    using map_of_rev_enumerate [of "\<lambda>k. Some [1, int k]" 0 sel v]
    by (simp add: map_of_rev_distinct dict_of_distinct_keys map_of_dict_of)
  have ot: "map_of (rev (dict_of (map (\<lambda>(k, v). (v, Some [0, int k])) (List.enumerate 0 other)))) v =
        (if v \<in> set other then Some (Some [0, int (last_index_of other v)]) else None)"
    using map_of_rev_enumerate [of "\<lambda>k. Some [0, int k]" 0 other v]
    by (simp add: map_of_rev_distinct dict_of_distinct_keys map_of_dict_of)
  have a: "map_of (dict_of (map (\<lambda>(k, v). (v, None :: int list option)) (List.enumerate 0 all))) v =
        (if v \<in> set all then Some None else None)"
    using map_of_rev_enumerate [of "\<lambda>k. None :: int list option" 0 all v]
    by (simp add: map_of_dict_of)
  show ?thesis
    unfolding build_Kd_def Let_def map_of_dict_update
    by (simp only: map_add_def s ot a) (simp split: option.splits)
qed

lemma keys_build_Kd:
  assumes "distinct all" "set other \<subseteq> set all" "set sel \<subseteq> set all"
  shows "map fst (build_Kd all other sel) = all"
proof -
  let ?K0 = "dict_of (map (\<lambda>(k, v). (v, None :: int list option)) (List.enumerate 0 all))"
  let ?io = "dict_of (map (\<lambda>(k, v). (v, Some [0, int k])) (List.enumerate 0 other))"
  let ?is = "dict_of (map (\<lambda>(k, v). (v, Some [1, int k])) (List.enumerate 0 sel))"
  have k0: "map fst ?K0 = all"
  proof -
    have keys: "map fst (map (\<lambda>(k, v). (v, None :: int list option)) (List.enumerate 0 all)) = all"
      by (rule keys_enumerate_items)
    then have "distinct (map fst (map (\<lambda>(k, v). (v, None :: int list option)) (List.enumerate 0 all)))"
      using assms(1) by (simp only:)
    from dict_of_distinct [OF this] keys show ?thesis by (simp only:)
  qed
  have ko: "fst ` set ?io = set other"
    using keys_enumerate_items [of "\<lambda>k. Some [0, int k]" 0 other]
    by (simp only: keys_dict_of) (metis list.set_map)
  have ks: "fst ` set ?is = set sel"
    using keys_enumerate_items [of "\<lambda>k. Some [1, int k]" 0 sel]
    by (simp only: keys_dict_of) (metis list.set_map)
  have k1: "map fst (dict_update ?K0 ?io) = all"
  proof -
    have "fst ` set ?io \<subseteq> fst ` set ?K0"
      using assms(2) ko k0 by (metis list.set_map)
    from keys_dict_update_subset [OF this] k0 show ?thesis by simp
  qed
  have "fst ` set ?is \<subseteq> fst ` set (dict_update ?K0 ?io)"
    using assms(3) ks k1 by (metis list.set_map)
  from keys_dict_update_subset [OF this] k1 show ?thesis
    by (simp add: build_Kd_def Let_def)
qed

lemma distinct_keys_build_Kd: "distinct (map fst (build_Kd all other sel))"
  unfolding build_Kd_def Let_def
  by (intro dict_update_distinct) (simp add: dict_of_distinct_keys)

lemma flatten_values_Some: "flatten_values (map Some xs) = Inr (concat xs)"
  by (induction xs) simp_all

lemma flatten_values_Inl: "flatten_values vs = Inl e \<Longrightarrow> e = TypeError"
  by (induction vs arbitrary: e rule: flatten_values.induct) (auto split: sum.splits)

lemma flatten_values_all_Some: "None \<notin> set vs \<Longrightarrow> \<exists>r. flatten_values vs = Inr r"
proof (induction vs)
  case Nil
  then show ?case by simp
next
  case (Cons v vs)
  then obtain kv where v: "v = Some kv" by (cases v) auto
  from Cons obtain r where "flatten_values vs = Inr r" by auto
  then show ?case by (simp add: v)
qed

lemma values_build_Kd_Some:
  assumes "set other = set all - set sel"
  shows "None \<notin> set (map snd (build_Kd all other sel))"
proof
  assume "None \<in> set (map snd (build_Kd all other sel))"
  then obtain k where "(k, None) \<in> set (build_Kd all other sel)" by auto
  from map_of_is_SomeI [OF distinct_keys_build_Kd this]
  have "map_of (build_Kd all other sel) k = Some None" .
  then have "k \<notin> set sel \<and> k \<notin> set other \<and> k \<in> set all"
    by (auto simp: map_of_build_Kd split: if_splits)
  with assms show False by auto
qed

lemma length_Kd_pair: "length (Kd_pair other sel v) = 2"
  by (simp add: Kd_pair_def)

lemma flatten_build_Kd:
  assumes "distinct all" "set other = set all - set sel" "set sel \<subseteq> set all"
  shows "flatten_values (map snd (build_Kd all other sel)) = Inr (concat (map (Kd_pair other sel) all))"
proof -
  have sub: "set other \<subseteq> set all" using assms(2) by auto
  have keys: "map fst (build_Kd all other sel) = all"
    by (rule keys_build_Kd [OF assms(1) sub assms(3)])
  have "map snd (build_Kd all other sel) = map (\<lambda>k. the (map_of (build_Kd all other sel) k)) all"
    using values_by_keys [OF distinct_keys_build_Kd, of all other sel] keys by simp
  also have "\<dots> = map Some (map (Kd_pair other sel) all)"
    unfolding map_map
  proof (rule map_cong [OF refl])
    fix v assume "v \<in> set all"
    then have "v \<in> set sel \<or> v \<in> set other" using assms(2) by auto
    then show "the (map_of (build_Kd all other sel) v) = (Some \<circ> Kd_pair other sel) v"
      by (auto simp: map_of_build_Kd Kd_pair_def)
  qed
  finally show ?thesis by (simp only: flatten_values_Some)
qed

lemma concat_pairs_length:
  "\<forall>v \<in> set xs. length (f v) = 2 \<Longrightarrow> length (concat (map f xs)) = 2 * length xs"
  by (induction xs) simp_all

lemma concat_pairs_nth:
  "\<forall>v \<in> set xs. length (f v) = 2 \<Longrightarrow> i < length xs \<Longrightarrow>
   concat (map f xs) ! (2 * i) = f (xs ! i) ! 0 \<and> concat (map f xs) ! (2 * i + 1) = f (xs ! i) ! 1"
proof (induction xs arbitrary: i)
  case Nil
  then show ?case by simp
next
  case (Cons x xs)
  have lx: "length (f x) = 2" using Cons.prems by simp
  show ?case
  proof (cases i)
    case 0
    then show ?thesis using lx by (simp add: nth_append)
  next
    case (Suc j)
    with Cons.prems have "j < length xs" "\<forall>v \<in> set xs. length (f v) = 2" by simp_all
    from Cons.IH [OF this(2) this(1)] show ?thesis using Suc lx by (simp add: nth_append)
  qed
qed

lemma decode_emit:
  "\<forall>v \<in> set xs. v \<in> set free \<or> v \<in> set rigidified \<Longrightarrow>
   decode_pairs free rigidified (concat (map (emit_pair free rigidified) xs)) = xs"
  by (induction xs) (auto simp: emit_pair_def index_of_nth)

lemma Kd_pair_distinct:
  assumes "distinct other" "distinct sel" "v \<in> set other \<or> v \<in> set sel"
  shows "Kd_pair other sel v = emit_pair other sel v"
  using assms by (auto simp: Kd_pair_def emit_pair_def last_index_of_distinct)

subsection \<open>The result of Rigidify\<close>

lemma distinct_range: "distinct (map int [0..<n])"
  by (simp add: distinct_map inj_on_def)

lemma set_range: "set (map int [0..<n]) = {j. 0 \<le> j \<and> j < int n}"
proof (intro set_eqI iffI)
  fix j assume "j \<in> set (map int [0..<n])"
  then show "j \<in> {j. 0 \<le> j \<and> j < int n}" by auto
next
  fix j assume "j \<in> {j. 0 \<le> j \<and> j < int n}"
  then have "nat j \<in> set [0..<n]" "int (nat j) = j" by auto
  then show "j \<in> set (map int [0..<n])" by (metis image_eqI set_map)
qed

lemma range_subscripts:
  "length sp = n \<Longrightarrow> \<forall>i \<in> set (map int [0..<n]). 0 \<le> i \<and> i < int (length sp)"
  by simp

lemma Rigidify_Inr:
  assumes "Rigidify ext sn ap ai sp gs frames name fo = Inr d"
  shows "length gs = length (resolve_frames gs frames fo)"
    and "group_loop ext ai sp gs (resolve_frames gs frames fo) 0 ([], [], []) =
           Inr (rigids d, concat gs, rigidIndexPerPoint d)"
    and "selectedIndices d = concat gs"
    and "otherIndices d = list_of_set ext (set ai - set (concat gs))"
    and "flatten_values (map snd (build_Kd ai (otherIndices d) (selectedIndices d))) = Inr (indexPairs d)"
    and "gather ap (otherIndices d) = Inr (free_positions d)"
    and "gather ap (selectedIndices d) = Inr (rigidified_positions d)"
    and "node_name d = (case name of None \<Rightarrow> sn | Some n \<Rightarrow> n)"
proof -
  let ?fs = "resolve_frames gs frames fo"
  from assms show len: "length gs = length ?fs"
    by (auto simp: Rigidify_def Let_def split: if_splits)
  from assms len obtain rig sel imap where
    loop: "group_loop ext ai sp gs ?fs 0 ([], [], []) = Inr (rig, sel, imap)"
    by (auto simp: Rigidify_def Let_def split: if_splits sum.splits)
  from group_loop_Inr [OF loop] have sel: "sel = concat gs" by simp
  from assms len loop have all:
    "group_loop ext ai sp gs ?fs 0 ([], [], []) = Inr (rigids d, concat gs, rigidIndexPerPoint d) \<and>
     selectedIndices d = concat gs \<and>
     otherIndices d = list_of_set ext (set ai - set (concat gs)) \<and>
     flatten_values (map snd (build_Kd ai (otherIndices d) (selectedIndices d))) = Inr (indexPairs d) \<and>
     gather ap (otherIndices d) = Inr (free_positions d) \<and>
     gather ap (selectedIndices d) = Inr (rigidified_positions d) \<and>
     node_name d = (case name of None \<Rightarrow> sn | Some n \<Rightarrow> n)"
    unfolding sel
    by (auto simp: Rigidify_def Let_def split: if_splits sum.splits)
  from all show "group_loop ext ai sp gs ?fs 0 ([], [], []) = Inr (rigids d, concat gs, rigidIndexPerPoint d)"
    by (rule conjunct1)
  from all show "selectedIndices d = concat gs" by (elim conjE)
  from all show "otherIndices d = list_of_set ext (set ai - set (concat gs))" by (elim conjE)
  from all show "flatten_values (map snd (build_Kd ai (otherIndices d) (selectedIndices d))) = Inr (indexPairs d)"
    by (elim conjE)
  from all show "gather ap (otherIndices d) = Inr (free_positions d)" by (elim conjE)
  from all show "gather ap (selectedIndices d) = Inr (rigidified_positions d)" by (elim conjE)
  from all show "node_name d = (case name of None \<Rightarrow> sn | Some n \<Rightarrow> n)" by (elim conjE)
qed

lemma Rigidify_indexPairs:
  assumes ok: "Rigidify ext sn ap (map int [0..<n]) sp gs frames name fo = Inr d"
    and range: "groups_in_range n gs"
    and order: "lists_set (list_of_set ext) (set (map int [0..<n]) - set (concat gs))"
  shows "indexPairs d = concat (map (Kd_pair (otherIndices d) (selectedIndices d)) (map int [0..<n]))"
    and "set (otherIndices d) = set (map int [0..<n]) - set (selectedIndices d)"
    and "distinct (otherIndices d)"
    and "set (selectedIndices d) \<subseteq> set (map int [0..<n])"
proof -
  note R = Rigidify_Inr [OF ok]
  have oth: "otherIndices d = list_of_set ext (set (map int [0..<n]) - set (concat gs))" by (rule R(4))
  from order show o1: "set (otherIndices d) = set (map int [0..<n]) - set (selectedIndices d)"
    unfolding oth R(3) lists_set_def by (rule conjunct1)
  from order show o2: "distinct (otherIndices d)"
    unfolding oth lists_set_def by (rule conjunct2)
  from range show s1: "set (selectedIndices d) \<subseteq> set (map int [0..<n])"
    unfolding set_range R(3) groups_in_range_def by auto
  from R(5) flatten_build_Kd [OF distinct_range o1 s1]
  show "indexPairs d = concat (map (Kd_pair (otherIndices d) (selectedIndices d)) (map int [0..<n]))"
    by simp
qed

lemma Rigidify_frame:
  assumes ok: "Rigidify ext sn ap ai sp gs frames name fo = Inr d"
    and ai: "\<forall>i \<in> set ai. 0 \<le> i \<and> i < int (length sp)"
    and k: "k < length gs"
  shows "synthesize_frame ext (resolve_frames gs frames fo ! k) (selected_points ai sp (gs ! k)) =
           Inr (rigids d ! k)"
proof -
  from group_loop_Inr [OF Rigidify_Inr(2) [OF ok]] k
  obtain pts where "mfilter (gs ! k) ai sp = Inr pts"
    "synthesize_frame ext (resolve_frames gs frames fo ! k) pts = Inr (rigids d ! (length ([] :: 'a list list) + k))"
    by blast
  then show ?thesis using mfilter_selected_points [OF ai, of "gs ! k"] by simp
qed

lemma in_range_subscriptable: "groups_in_range n gs \<Longrightarrow> groups_subscriptable n gs"
  by (fastforce simp: groups_in_range_def groups_subscriptable_def)

lemma Rigidify_total:
  assumes fs: "resolve_frames gs frames fo = fs"
    and ai: "ai = map int [0..<n]"
    and sp: "length sp = n"
    and ap: "length ap = n"
    and len: "length gs = length fs"
    and ok: "all_frames_ok fs"
    and order: "lists_set (list_of_set ext) (set ai - set (concat gs))"
  shows "groups_subscriptable n gs \<Longrightarrow>
           \<exists>d. Rigidify ext sn ap ai sp gs frames name fo = Inr d"
    and "\<not> groups_subscriptable n gs \<Longrightarrow>
           Rigidify ext sn ap ai sp gs frames name fo = Inl IndexError"
proof -
  define other where "other = list_of_set ext (set ai - set (concat gs))"
  define sel where "sel = concat gs"
  have sub: "\<forall>i \<in> set ai. 0 \<le> i \<and> i < int (length sp)"
    unfolding ai by (rule range_subscripts [OF sp])
  have each: "\<forall>j < length gs. frame_ok (fs ! j)"
    using ok len by (simp add: all_frames_ok_def list_all_length)
  from group_loop_succeeds [OF sub len each, of ext 0 "[]" "[]" "[]"]
  obtain rig sel' imap where loop': "group_loop ext ai sp gs fs 0 ([], [], []) = Inr (rig, sel', imap)"
    by blast
  from group_loop_Inr [OF loop'] have "sel' = sel" by (simp add: sel_def)
  with loop' have loop: "group_loop ext ai sp gs fs 0 ([], [], []) = Inr (rig, sel, imap)" by simp
  from order have oset: "set other = set ai - set sel"
    unfolding lists_set_def other_def sel_def by (rule conjunct1)
  from flatten_values_all_Some [OF values_build_Kd_Some [OF oset]]
  obtain pairs where pairs: "flatten_values (map snd (build_Kd ai other sel)) = Inr pairs"
    by blast
  have "\<forall>j \<in> set other. - int (length ap) \<le> j \<and> j < int (length ap)"
    using oset ap unfolding ai by auto
  from gather_total [OF this] obtain free where free: "gather ap other = Inr free" by blast
  have unf: "Rigidify ext sn ap ai sp gs frames name fo =
      (case group_loop ext ai sp gs fs 0 ([], [], []) of
         Inl e \<Rightarrow> Inl e
       | Inr (rigids', selectedIndices', indicesMap) \<Rightarrow>
           (let otherIndices' = list_of_set ext (set ai - set selectedIndices');
                Kd = build_Kd ai otherIndices' selectedIndices'
            in case flatten_values (map snd Kd) of
                 Inl e \<Rightarrow> Inl e
               | Inr indexPairs' \<Rightarrow>
                   (case gather ap otherIndices' of
                      Inl e \<Rightarrow> Inl e
                    | Inr freePositions \<Rightarrow>
                        (case gather ap selectedIndices' of
                           Inl e \<Rightarrow> Inl e
                         | Inr rigidifiedPositions \<Rightarrow>
                             Inr \<lparr> node_name = (case name of None \<Rightarrow> sn | Some n \<Rightarrow> n),
                                   otherIndices = otherIndices',
                                   selectedIndices = selectedIndices',
                                   free_positions = freePositions,
                                   rigids = rigids',
                                   rigidified_positions = rigidifiedPositions,
                                   rigidIndexPerPoint = indicesMap,
                                   indexPairs = indexPairs' \<rparr>))))"
    unfolding Rigidify_def Let_def fs using len by simp
  have other': "list_of_set ext (set ai - set sel) = other"
    by (simp only: other_def sel_def)
  have eq: "Rigidify ext sn ap ai sp gs frames name fo =
      (case gather ap sel of
         Inl e \<Rightarrow> Inl e
       | Inr rigidifiedPositions \<Rightarrow>
           Inr \<lparr> node_name = (case name of None \<Rightarrow> sn | Some n \<Rightarrow> n),
                 otherIndices = other, selectedIndices = sel,
                 free_positions = free, rigids = rig,
                 rigidified_positions = rigidifiedPositions,
                 rigidIndexPerPoint = imap, indexPairs = pairs \<rparr>)"
    unfolding unf loop
    by (simp only: prod.case sum.case Let_def other' pairs free)
  {
    assume "groups_subscriptable n gs"
    then have "\<forall>j \<in> set sel. - int (length ap) \<le> j \<and> j < int (length ap)"
      using ap by (auto simp: groups_subscriptable_def sel_def)
    from gather_total [OF this] obtain rp where "gather ap sel = Inr rp" by blast
    with eq show "\<exists>d. Rigidify ext sn ap ai sp gs frames name fo = Inr d" by simp
  }
  {
    assume "\<not> groups_subscriptable n gs"
    then have "\<exists>j \<in> set sel. int (length ap) \<le> j \<or> j < - int (length ap)"
      using ap by (auto simp: groups_subscriptable_def sel_def not_le not_less)
    then have "gather ap sel = Inl IndexError"
      by (simp only: gather_Inl_iff simp_thms)
    with eq show "Rigidify ext sn ap ai sp gs frames name fo = Inl IndexError" by simp
  }
qed

lemma Rigidify_fails_at:
  assumes fs: "resolve_frames gs frames fo = fs"
    and ai: "ai = map int [0..<n]"
    and sp: "length sp = n"
    and len: "length gs = length fs"
    and k: "k < length fs"
    and earlier: "all_frames_ok (take k fs)"
    and bad: "synthesize_frame ext (fs ! k) (selected_points ai sp (gs ! k)) = Inl e"
  shows "Rigidify ext sn ap ai sp gs frames name fo = Inl e"
proof -
  have sub: "\<forall>i \<in> set ai. 0 \<le> i \<and> i < int (length sp)"
    unfolding ai by (rule range_subscripts [OF sp])
  have each: "\<forall>j < k. frame_ok (fs ! j)"
    using earlier k by (simp add: all_frames_ok_def list_all_length)
  have "group_loop ext ai sp gs fs 0 ([], [], []) = Inl e"
    by (rule group_loop_fails_at [OF sub len k bad each])
  then show ?thesis using fs len by (simp add: Rigidify_def Let_def)
qed

lemma offset_frame_NameError:
  assumes "resolve_frames gs frames fo = fs" "ai = map int [0..<n]" "length sp = n"
    and "length gs = length fs" "k < length fs" "all_frames_ok (take k fs)"
    and "length (fs ! k) = 3 \<or> length (fs ! k) = 4"
  shows "Rigidify ext sn ap ai sp gs frames name fo = Inl NameError"
  by (rule Rigidify_fails_at [OF assms(1-6) synthesize_frame_offset [OF assms(7)]])

lemma unsupported_frame_NotImplementedError:
  assumes "resolve_frames gs frames fo = fs" "ai = map int [0..<n]" "length sp = n"
    and "length gs = length fs" "k < length fs" "all_frames_ok (take k fs)"
    and "\<not> supported_arity (fs ! k)"
  shows "Rigidify ext sn ap ai sp gs frames name fo = Inl NotImplementedError"
  by (rule Rigidify_fails_at [OF assms(1-6) synthesize_frame_unsupported [OF assms(7)]])

lemma Rigidify_Inr_frame_ok:
  assumes ok: "Rigidify ext sn ap ai sp gs frames name fo = Inr d"
    and ai: "ai = map int [0..<n]"
    and sp: "length sp = n"
    and k: "k < length gs"
  shows "frame_ok (resolve_frames gs frames fo ! k)"
proof -
  have sub: "\<forall>i \<in> set ai. 0 \<le> i \<and> i < int (length sp)"
    unfolding ai by (rule range_subscripts [OF sp])
  from synthesize_frame_Inr_frame_ok [OF Rigidify_frame [OF ok sub k]] show ?thesis .
qed

subsection \<open>Set orders and the concrete runs\<close>

lemma lists_set_sorted: "finite S \<Longrightarrow> lists_set sorted_list_of_set S"
  by (simp add: lists_set_def)

lemma lists_set_slot_order: "finite S \<Longrightarrow> lists_set slot_order S"
  by (simp add: lists_set_def slot_order_def)

lemma five_point_run:
  "Rigidify example_ext ''body'' (line_positions 5) (map int [0..<5]) (line_points 5)
     [[1, 3]] (Some [[2, 0, 0, 0, 0, 0, 1]]) None None = Inr five_point_result"
  unfolding five_point_result_def by code_simp

lemma five_point_euler_run:
  "Rigidify example_ext ''body'' (line_positions 5) (map int [0..<5]) (line_points 5)
     [[1, 3]] (Some [[2, 0, 0, 0, 0, 0]]) None None = Inr five_point_result"
  unfolding five_point_result_def by code_simp

lemma five_point_order:
  "lists_set (list_of_set example_ext) (set (map int [0..<5]) - set (concat [[1, 3]]))"
  by (simp add: example_ext_def lists_set_sorted)

lemma doubled_quaternion_run:
  "Rigidify example_ext ''body'' (line_positions 3) (map int [0..<3]) (line_points 3)
     [[1]] (Some [[0, 0, 0, 0, 0, 0, 2]]) None None = Inr doubled_quaternion_result"
  unfolding doubled_quaternion_result_def by code_simp

lemma nine_point_run:
  "Rigidify slot_ext ''body'' (line_positions 9) (map int [0..<9]) (line_points 9)
     [[0, 2, 3, 4, 5, 6, 7]] (Some [[0, 0, 0, 0, 0, 0, 1]]) None None = Inr nine_point_result"
  unfolding nine_point_result_def by code_simp

lemma negative_index_run:
  "Rigidify example_ext ''body'' (line_positions 3) (map int [0..<3]) (line_points 3)
     [[- 1]] (Some [[0, 0, 0, 0, 0, 0, 1]]) None None = Inr negative_index_result"
  unfolding negative_index_result_def by code_simp

lemma overlap_run:
  "Rigidify example_ext ''body'' (line_positions 3) (map int [0..<3]) (line_points 3)
     [[0], [0]] (Some [[0, 0, 0, 0, 0, 0, 1], [0, 0, 0, 0, 0, 0, 1]]) None None = Inr overlap_result"
  unfolding overlap_result_def by code_simp

lemma beyond_range_run:
  "Rigidify example_ext ''body'' (line_positions 3) (map int [0..<3]) (line_points 3)
     [[3]] (Some [[0, 0, 0, 0, 0, 0, 1]]) None None = Inl IndexError"
  by code_simp




section \<open>The claims\<close>

text \<open>
  Throughout, the body has \<open>n\<close> points: \<^verbatim>\<open>container.points\<close> is \<open>0, \<dots>, n - 1\<close>. The
  set order of the runtime is any order that lists each element once.
\<close>

subsection \<open>C1: the index pairs follow the global index\<close>

text \<open>
  C1. When the groups are in range and disjoint, the index pairs are the sequence of the
  specification: one pair per global index, in ascending order of the global index, with
  tag 0 and the place in \<^verbatim>\<open>otherIndices\<close> for a free index, tag 1 and the place in
  \<^verbatim>\<open>selectedIndices\<close> for a rigidified one. Decoding the pairs gives \<open>0, \<dots>, n - 1\<close>.
\<close>

theorem indexPairs_ascending_global_order:
  assumes ok: "Rigidify ext sn ap (map int [0..<n]) sp gs frames name fo = Inr d"
    and range: "groups_in_range n gs"
    and disjoint: "distinct (concat gs)"
    and order: "lists_set (list_of_set ext) (set (map int [0..<n]) - set (concat gs))"
  shows "indexPairs d = spec_indexPairs n (otherIndices d) (selectedIndices d) \<and>
         decode_pairs (otherIndices d) (selectedIndices d) (indexPairs d) = map int [0..<n]"
proof -
  note F = Rigidify_indexPairs [OF ok range order]
  from Rigidify_Inr(3) [OF ok] disjoint have ds: "distinct (selectedIndices d)" by simp
  have cover: "\<forall>v \<in> set (map int [0..<n]). v \<in> set (otherIndices d) \<or> v \<in> set (selectedIndices d)"
    using F(2) by blast
  have "map (Kd_pair (otherIndices d) (selectedIndices d)) (map int [0..<n]) =
        map (emit_pair (otherIndices d) (selectedIndices d)) (map int [0..<n])"
  proof (rule map_cong [OF refl])
    fix v assume "v \<in> set (map int [0..<n])"
    with cover have "v \<in> set (otherIndices d) \<or> v \<in> set (selectedIndices d)" by blast
    from Kd_pair_distinct [OF F(3) ds this]
    show "Kd_pair (otherIndices d) (selectedIndices d) v = emit_pair (otherIndices d) (selectedIndices d) v" .
  qed
  with F(1) have eq: "indexPairs d = spec_indexPairs n (otherIndices d) (selectedIndices d)"
    by (simp only: spec_indexPairs_def)
  have "decode_pairs (otherIndices d) (selectedIndices d)
          (spec_indexPairs n (otherIndices d) (selectedIndices d)) = map int [0..<n]"
    unfolding spec_indexPairs_def by (rule decode_emit [OF cover])
  with eq show ?thesis by simp
qed

theorem indexPairs_ascending_global_order_witness:
  "Rigidify example_ext ''body'' (line_positions 5) (map int [0..<5]) (line_points 5)
     [[1, 3]] (Some [[2, 0, 0, 0, 0, 0, 1]]) None None = Inr five_point_result \<and>
   groups_in_range 5 [[1, 3]] \<and>
   distinct (concat [[1, 3 :: int]]) \<and>
   lists_set (list_of_set example_ext) (set (map int [0..<5]) - set (concat [[1, 3]])) \<and>
   indexPairs five_point_result =
     spec_indexPairs 5 (otherIndices five_point_result) (selectedIndices five_point_result) \<and>
   decode_pairs (otherIndices five_point_result) (selectedIndices five_point_result)
     (indexPairs five_point_result) = map int [0..<5]"
proof -
  note run = five_point_run
  have range: "groups_in_range 5 [[1, 3]]" by (simp add: groups_in_range_def)
  have disjoint: "distinct (concat [[1, 3 :: int]])" by simp
  note order = five_point_order
  from indexPairs_ascending_global_order [OF run range disjoint order] run range disjoint order
  show ?thesis by blast
qed

subsection \<open>C2: reading the positions back\<close>

text \<open>
  C2. For every global index \<open>i < n\<close>, reading pair \<open>i\<close> of the index pairs and then the
  container and place it names returns the original position of point \<open>i\<close>.
\<close>

theorem read_back_original:
  assumes ok: "Rigidify ext sn ap (map int [0..<n]) sp gs frames name fo = Inr d"
    and len: "length ap = n"
    and range: "groups_in_range n gs"
    and order: "lists_set (list_of_set ext) (set (map int [0..<n]) - set (concat gs))"
    and i: "i < n"
  shows "read_back d i = Inr (ap ! i)"
proof -
  note F = Rigidify_indexPairs [OF ok range order]
  note R = Rigidify_Inr [OF ok]
  let ?other = "otherIndices d" and ?sel = "selectedIndices d"
  let ?pairs = "map (Kd_pair ?other ?sel) (map int [0..<n])"
  have two: "\<forall>v \<in> set (map int [0..<n]). length (Kd_pair ?other ?sel v) = 2"
    by (simp add: length_Kd_pair)
  have i': "i < length (map int [0..<n])" using i by simp
  have nth_i: "map int [0..<n] ! i = int i" using i by simp
  have lenp: "length (indexPairs d) = 2 * n"
    using concat_pairs_length [OF two] F(1) by simp
  have p0: "indexPairs d ! (2 * i) = Kd_pair ?other ?sel (int i) ! 0"
    and p1: "indexPairs d ! (2 * i + 1) = Kd_pair ?other ?sel (int i) ! 1"
    using concat_pairs_nth [OF two i'] F(1) nth_i by simp_all
  have big: "\<not> length (indexPairs d) < 2 * i + 2" using lenp i by simp
  show ?thesis
  proof (cases "int i \<in> set ?sel")
    case True
    let ?k = "last_index_of ?sel (int i)"
    from last_index_of_nth [OF True] have k: "?k < length ?sel" "?sel ! ?k = int i" by simp_all
    have g: "gather ap ?sel = Inr (rigidified_positions d)" by (rule R(7))
    from gather_Inr_nth [OF g] k have "py_getitem ap (int i) = Inr (rigidified_positions d ! ?k)"
      and lr: "length (rigidified_positions d) = length ?sel" by auto
    moreover have "py_getitem ap (int i) = Inr (ap ! i)"
      using py_getitem_nonneg [of "int i" ap] i len by simp
    ultimately have val: "rigidified_positions d ! ?k = ap ! i" by simp
    have "py_getitem (rigidified_positions d) (int ?k) = Inr (rigidified_positions d ! ?k)"
      using py_getitem_nonneg [of "int ?k" "rigidified_positions d"] k lr by simp
    with val True big p0 p1 show ?thesis
      by (simp add: read_back_def Kd_pair_def)
  next
    case False
    with F(2) i have mem: "int i \<in> set ?other" unfolding set_range by simp
    let ?k = "last_index_of ?other (int i)"
    from last_index_of_nth [OF mem] have k: "?k < length ?other" "?other ! ?k = int i" by simp_all
    have g: "gather ap ?other = Inr (free_positions d)" by (rule R(6))
    from gather_Inr_nth [OF g] k have "py_getitem ap (int i) = Inr (free_positions d ! ?k)"
      and lr: "length (free_positions d) = length ?other" by auto
    moreover have "py_getitem ap (int i) = Inr (ap ! i)"
      using py_getitem_nonneg [of "int i" ap] i len by simp
    ultimately have val: "free_positions d ! ?k = ap ! i" by simp
    have "py_getitem (free_positions d) (int ?k) = Inr (free_positions d ! ?k)"
      using py_getitem_nonneg [of "int ?k" "free_positions d"] k lr by simp
    with val False big p0 p1 show ?thesis
      by (simp add: read_back_def Kd_pair_def)
  qed
qed

theorem read_back_original_witness:
  "Rigidify example_ext ''body'' (line_positions 5) (map int [0..<5]) (line_points 5)
     [[1, 3]] (Some [[2, 0, 0, 0, 0, 0, 1]]) None None = Inr five_point_result \<and>
   length (line_positions 5) = 5 \<and>
   groups_in_range 5 [[1, 3]] \<and>
   lists_set (list_of_set example_ext) (set (map int [0..<5]) - set (concat [[1, 3]])) \<and>
   (3 :: nat) < 5 \<and>
   read_back five_point_result 3 = Inr (line_positions 5 ! 3)"
proof -
  note run = five_point_run
  have len: "length (line_positions 5) = 5" by (simp add: line_positions_def)
  have range: "groups_in_range 5 [[1, 3]]" by (simp add: groups_in_range_def)
  have i: "(3 :: nat) < 5" by simp
  note order = five_point_order
  from read_back_original [OF run len range order i] run len range order i
  show ?thesis by blast
qed

subsection \<open>C3: the size of a frame\<close>

text \<open>
  C3. The claim has the frames of 3, 4, 6 and 7 scalars accepted and every other size
  refused. The function has a branch for each of the four sizes, as its docstring
  announces, but the branches for 3 and 4 scalars call \<^verbatim>\<open>getBarycenter\<close>, a name that
  nothing binds: a frame of three Euler angles and a frame of four quaternion scalars
  both make the call raise NameError, so they are not accepted. A frame of five scalars
  is refused with NotImplementedError, as the claim says.
\<close>

theorem offset_frames_raise_NameError:
  "Rigidify example_ext ''body'' (line_positions 3) (map int [0..<3]) (line_points 3)
     [[1]] (Some [[0, 0, 0]]) None None = Inl NameError \<and>
   Rigidify example_ext ''body'' (line_positions 3) (map int [0..<3]) (line_points 3)
     [[1]] (Some [[0, 0, 0, 1]]) None None = Inl NameError \<and>
   Rigidify example_ext ''body'' (line_positions 3) (map int [0..<3]) (line_points 3)
     [[1]] (Some [[1, 2, 3, 4, 5]]) None None = Inl NotImplementedError"
proof -
  have sp: "length (line_points 3) = 3" by (simp add: line_points_def)
  have euler: "Rigidify example_ext ''body'' (line_positions 3) (map int [0..<3]) (line_points 3)
     [[1]] (Some [[0, 0, 0]]) None None = Inl NameError"
    by (rule offset_frame_NameError [where fs = "[[0, 0, 0]]" and k = 0 and n = 3])
      (simp_all add: resolve_frames_def sp all_frames_ok_def)
  have quaternion: "Rigidify example_ext ''body'' (line_positions 3) (map int [0..<3]) (line_points 3)
     [[1]] (Some [[0, 0, 0, 1]]) None None = Inl NameError"
    by (rule offset_frame_NameError [where fs = "[[0, 0, 0, 1]]" and k = 0 and n = 3])
      (simp_all add: resolve_frames_def sp all_frames_ok_def)
  have five: "Rigidify example_ext ''body'' (line_positions 3) (map int [0..<3]) (line_points 3)
     [[1]] (Some [[1, 2, 3, 4, 5]]) None None = Inl NotImplementedError"
    by (rule unsupported_frame_NotImplementedError [where fs = "[[1, 2, 3, 4, 5]]" and k = 0 and n = 3])
      (simp_all add: resolve_frames_def sp all_frames_ok_def supported_arity_def)
  from euler quaternion five show ?thesis by blast
qed

subsection \<open>C4: the stored orientation\<close>

text \<open>
  C4 as stated fails: a pose of seven scalars whose quaternion is \<open>(0, 0, 0, 2)\<close> is
  stored as it is, and its norm is two.
\<close>

theorem caller_quaternion_not_normalized:
  "Rigidify example_ext ''body'' (line_positions 3) (map int [0..<3]) (line_points 3)
     [[1]] (Some [[0, 0, 0, 0, 0, 0, 2]]) None None = Inr doubled_quaternion_result \<and>
   orientation_of (rigids doubled_quaternion_result ! 0) = [0, 0, 0, 2] \<and>
   \<not> unit_quaternion (orientation_of (rigids doubled_quaternion_result ! 0))"
  using doubled_quaternion_run
  by (simp add: doubled_quaternion_result_def orientation_of_def unit_quaternion_def)

text \<open>
  C4, amended. For a frame of 6 scalars the stored orientation is the quaternion that
  \<^verbatim>\<open>Quat.createFromEuler\<close> returns for the three angles, and it is normalized, the
  conversion of the library returning normalized quaternions. For a frame of 7 scalars
  the stored orientation is the quaternion the caller supplied, unchanged, so that it is
  normalized exactly when the supplied one is. In both cases the frame is stored: the
  call returns.
\<close>

theorem stored_orientation:
  assumes fs: "resolve_frames gs frames fo = fs"
    and ai: "ai = map int [0..<n]"
    and sp: "length sp = n"
    and ap: "length ap = n"
    and len: "length gs = length fs"
    and frames_ok: "all_frames_ok fs"
    and order: "lists_set (list_of_set ext) (set ai - set (concat gs))"
    and sub: "groups_subscriptable n gs"
    and k: "k < length gs"
    and quat: "\<And>e. unit_quaternion (createFromEuler ext e)"
  shows "\<exists>d. Rigidify ext sn ap ai sp gs frames name fo = Inr d \<and>
           (length (fs ! k) = 6 \<or> length (fs ! k) = 7) \<and>
           (length (fs ! k) = 6 \<longrightarrow>
              orientation_of (rigids d ! k) = createFromEuler ext (drop 3 (fs ! k)) \<and>
              unit_quaternion (orientation_of (rigids d ! k))) \<and>
           (length (fs ! k) = 7 \<longrightarrow>
              orientation_of (rigids d ! k) = drop 3 (fs ! k) \<and>
              (unit_quaternion (orientation_of (rigids d ! k)) \<longleftrightarrow>
                 unit_quaternion (drop 3 (fs ! k))))"
proof -
  from Rigidify_total(1) [OF fs ai sp ap len frames_ok order sub, of sn name]
  obtain d where ok: "Rigidify ext sn ap ai sp gs frames name fo = Inr d" by blast
  have subs: "\<forall>i \<in> set ai. 0 \<le> i \<and> i < int (length sp)"
    unfolding ai by (rule range_subscripts [OF sp])
  note fr = Rigidify_frame [OF ok subs k, unfolded fs]
  note cases = rigid_entry_cases [OF fr]
  have four: "length (createFromEuler ext e) = 4" for e
    using quat [of e] by (simp add: unit_quaternion_def)
  from synthesize_frame_Inr_frame_ok [OF fr]
  have size: "length (fs ! k) = 6 \<or> length (fs ! k) = 7" by (simp add: frame_ok_def)
  have c6: "length (fs ! k) = 6 \<longrightarrow>
      orientation_of (rigids d ! k) = createFromEuler ext (drop 3 (fs ! k)) \<and>
      unit_quaternion (orientation_of (rigids d ! k))"
  proof
    assume "length (fs ! k) = 6"
    with cases have "rigids d ! k = take 3 (fs ! k) @ createFromEuler ext (drop 3 (fs ! k))" by blast
    then have "orientation_of (rigids d ! k) = createFromEuler ext (drop 3 (fs ! k))"
      by (simp add: orientation_of_append [OF four])
    then show "orientation_of (rigids d ! k) = createFromEuler ext (drop 3 (fs ! k)) \<and>
      unit_quaternion (orientation_of (rigids d ! k))"
      using quat [of "drop 3 (fs ! k)"] by simp
  qed
  have c7: "length (fs ! k) = 7 \<longrightarrow>
      orientation_of (rigids d ! k) = drop 3 (fs ! k) \<and>
      (unit_quaternion (orientation_of (rigids d ! k)) \<longleftrightarrow> unit_quaternion (drop 3 (fs ! k)))"
  proof
    assume l: "length (fs ! k) = 7"
    with cases have "rigids d ! k = fs ! k" by blast
    then have "orientation_of (rigids d ! k) = drop 3 (fs ! k)"
      by (simp add: orientation_of_seven [OF l])
    then show "orientation_of (rigids d ! k) = drop 3 (fs ! k) \<and>
      (unit_quaternion (orientation_of (rigids d ! k)) \<longleftrightarrow> unit_quaternion (drop 3 (fs ! k)))"
      by simp
  qed
  from ok size c6 c7 show ?thesis by blast
qed

theorem stored_orientation_witness:
  "all_frames_ok [[2, 0, 0, 0, 0, 0 :: real]] \<and>
   groups_subscriptable 5 [[1, 3]] \<and>
   lists_set (list_of_set example_ext) (set (map int [0..<5]) - set (concat [[1, 3]])) \<and>
   (\<exists>d. Rigidify example_ext ''body'' (line_positions 5) (map int [0..<5]) (line_points 5)
          [[1, 3]] (Some [[2, 0, 0, 0, 0, 0]]) None None = Inr d \<and>
        orientation_of (rigids d ! 0) = createFromEuler example_ext (drop 3 [2, 0, 0, 0, 0, 0]) \<and>
        unit_quaternion (orientation_of (rigids d ! 0))) \<and>
   all_frames_ok [[0, 0, 0, 0, 0, 0, 2 :: real]] \<and>
   groups_subscriptable 3 [[1]] \<and>
   lists_set (list_of_set example_ext) (set (map int [0..<3]) - set (concat [[1]])) \<and>
   (\<exists>d. Rigidify example_ext ''body'' (line_positions 3) (map int [0..<3]) (line_points 3)
          [[1]] (Some [[0, 0, 0, 0, 0, 0, 2]]) None None = Inr d \<and>
        orientation_of (rigids d ! 0) = drop 3 [0, 0, 0, 0, 0, 0, 2] \<and>
        (unit_quaternion (orientation_of (rigids d ! 0)) \<longleftrightarrow>
           unit_quaternion (drop 3 [0, 0, 0, 0, 0, 0, 2 :: real])))"
proof -
  have quat: "\<And>e. unit_quaternion (createFromEuler example_ext e)"
    by (simp add: example_ext_def unit_quaternion_def)
  have fs: "resolve_frames [[1, 3]] (Some [[2, 0, 0, 0, 0, 0 :: real]]) None = [[2, 0, 0, 0, 0, 0]]"
    by (simp add: resolve_frames_def)
  have sp: "length (line_points 5) = 5" by (simp add: line_points_def)
  have ap: "length (line_positions 5) = 5" by (simp add: line_positions_def)
  have len: "length [[1, 3 :: int]] = length [[2, 0, 0, 0, 0, 0 :: real]]" by simp
  have frames_ok: "all_frames_ok [[2, 0, 0, 0, 0, 0 :: real]]"
    by (simp add: all_frames_ok_def frame_ok_def)
  have sub: "groups_subscriptable 5 [[1, 3]]" by (simp add: groups_subscriptable_def)
  have k: "(0 :: nat) < length [[1, 3 :: int]]" by simp
  from stored_orientation [OF fs refl sp ap len frames_ok five_point_order sub k quat,
      of "''body''" None]
  have euler: "\<exists>d. Rigidify example_ext ''body'' (line_positions 5) (map int [0..<5]) (line_points 5)
          [[1, 3]] (Some [[2, 0, 0, 0, 0, 0]]) None None = Inr d \<and>
        orientation_of (rigids d ! 0) = createFromEuler example_ext (drop 3 [2, 0, 0, 0, 0, 0]) \<and>
        unit_quaternion (orientation_of (rigids d ! 0))"
    by simp
  have fs': "resolve_frames [[1]] (Some [[0, 0, 0, 0, 0, 0, 2 :: real]]) None = [[0, 0, 0, 0, 0, 0, 2]]"
    by (simp add: resolve_frames_def)
  have sp': "length (line_points 3) = 3" by (simp add: line_points_def)
  have ap': "length (line_positions 3) = 3" by (simp add: line_positions_def)
  have len': "length [[1 :: int]] = length [[0, 0, 0, 0, 0, 0, 2 :: real]]" by simp
  have frames_ok': "all_frames_ok [[0, 0, 0, 0, 0, 0, 2 :: real]]"
    by (simp add: all_frames_ok_def frame_ok_def)
  have order': "lists_set (list_of_set example_ext) (set (map int [0..<3]) - set (concat [[1]]))"
    by (simp add: example_ext_def lists_set_sorted)
  have sub': "groups_subscriptable 3 [[1]]" by (simp add: groups_subscriptable_def)
  have k': "(0 :: nat) < length [[1 :: int]]" by simp
  from stored_orientation [OF fs' refl sp' ap' len' frames_ok' order' sub' k' quat,
      of "''body''" None]
  have pose: "\<exists>d. Rigidify example_ext ''body'' (line_positions 3) (map int [0..<3]) (line_points 3)
          [[1]] (Some [[0, 0, 0, 0, 0, 0, 2]]) None None = Inr d \<and>
        orientation_of (rigids d ! 0) = drop 3 [0, 0, 0, 0, 0, 0, 2] \<and>
        (unit_quaternion (orientation_of (rigids d ! 0)) \<longleftrightarrow>
           unit_quaternion (drop 3 [0, 0, 0, 0, 0, 0, 2 :: real]))"
    by simp
  from frames_ok sub five_point_order euler frames_ok' sub' order' pose show ?thesis by blast
qed

subsection \<open>C5: the position of a frame without explicit position\<close>

text \<open>
  C5. The claim has the frame of a group whose specification has 3 or 4 scalars placed
  at the barycenter of the selected points, as the docstring says. The function computes
  no such position: both branches call \<^verbatim>\<open>getBarycenter\<close>, which nothing binds, and the
  call raises NameError. This is so on the example of the specification (five points,
  group \<open>[1, 3]\<close>, Euler angles \<open>(0, 0, 0)\<close>), with a quaternion of four scalars, and
  with the default frames of a call that passes none.
\<close>

theorem barycenter_frames_raise_NameError:
  "Rigidify example_ext ''body'' (line_positions 5) (map int [0..<5]) (line_points 5)
     [[1, 3]] (Some [[0, 0, 0]]) None None = Inl NameError \<and>
   Rigidify example_ext ''body'' (line_positions 5) (map int [0..<5]) (line_points 5)
     [[1, 3]] (Some [[0, 0, 0, 1]]) None None = Inl NameError \<and>
   Rigidify example_ext ''body'' (line_positions 5) (map int [0..<5]) (line_points 5)
     [[1, 3]] None None None = Inl NameError"
proof -
  have sp: "length (line_points 5) = 5" by (simp add: line_points_def)
  have euler: "Rigidify example_ext ''body'' (line_positions 5) (map int [0..<5]) (line_points 5)
     [[1, 3]] (Some [[0, 0, 0]]) None None = Inl NameError"
    by (rule offset_frame_NameError [where fs = "[[0, 0, 0]]" and k = 0 and n = 5])
      (simp_all add: resolve_frames_def sp all_frames_ok_def)
  have quaternion: "Rigidify example_ext ''body'' (line_positions 5) (map int [0..<5]) (line_points 5)
     [[1, 3]] (Some [[0, 0, 0, 1]]) None None = Inl NameError"
    by (rule offset_frame_NameError [where fs = "[[0, 0, 0, 1]]" and k = 0 and n = 5])
      (simp_all add: resolve_frames_def sp all_frames_ok_def)
  have default: "Rigidify example_ext ''body'' (line_positions 5) (map int [0..<5]) (line_points 5)
     [[1, 3]] None None None = Inl NameError"
    by (rule offset_frame_NameError [where fs = "[[0, 0, 0]]" and k = 0 and n = 5])
      (simp_all add: resolve_frames_def sp all_frames_ok_def)
  from euler quaternion default show ?thesis by blast
qed

subsection \<open>C6: the free indices\<close>

text \<open>
  C6 as stated fails: with nine points and the group \<open>[0, 2, 3, 4, 5, 6, 7]\<close> a runtime
  that lists the set \<open>{1, 8}\<close> in slot order, as CPython does, gives the free indices as
  \<open>[8, 1]\<close>, which is not ascending.
\<close>

theorem free_indices_not_ascending:
  "Rigidify slot_ext ''body'' (line_positions 9) (map int [0..<9]) (line_points 9)
     [[0, 2, 3, 4, 5, 6, 7]] (Some [[0, 0, 0, 0, 0, 0, 1]]) None None = Inr nine_point_result \<and>
   otherIndices nine_point_result = [8, 1] \<and>
   \<not> sorted (otherIndices nine_point_result)"
  using nine_point_run by (simp add: nine_point_result_def)

text \<open>
  C6, amended. The free indices are the index range without the indices of the groups,
  each listed once, in the order in which the runtime lists the set; the \<open>k\<close>-th listed
  free index has local index \<open>k\<close> in the index pairs, and its position is the \<open>k\<close>-th of
  the free container.
\<close>

theorem free_indices_listed_once:
  assumes ok: "Rigidify ext sn ap (map int [0..<n]) sp gs frames name fo = Inr d"
    and len: "length ap = n"
    and range: "groups_in_range n gs"
    and order: "lists_set (list_of_set ext) (set (map int [0..<n]) - set (concat gs))"
  shows "set (otherIndices d) = {i. 0 \<le> i \<and> i < int n} - (\<Union>g \<in> set gs. set g) \<and>
         distinct (otherIndices d) \<and>
         length (free_positions d) = length (otherIndices d) \<and>
         (\<forall>k < length (otherIndices d).
            indexPairs d ! (2 * nat (otherIndices d ! k)) = 0 \<and>
            indexPairs d ! (2 * nat (otherIndices d ! k) + 1) = int k \<and>
            free_positions d ! k = ap ! nat (otherIndices d ! k))"
proof -
  note F = Rigidify_indexPairs [OF ok range order]
  note R = Rigidify_Inr [OF ok]
  let ?other = "otherIndices d" and ?sel = "selectedIndices d"
  have s: "set ?other = {i. 0 \<le> i \<and> i < int n} - (\<Union>g \<in> set gs. set g)"
    using F(2) unfolding set_range R(3) by simp
  from gather_Inr_nth [OF R(6)] have
    lf: "length (free_positions d) = length ?other" and
    nf: "\<forall>k < length ?other. py_getitem ap (?other ! k) = Inr (free_positions d ! k)"
    by simp_all
  have two: "\<forall>v \<in> set (map int [0..<n]). length (Kd_pair ?other ?sel v) = 2"
    by (simp add: length_Kd_pair)
  have each: "\<forall>k < length ?other.
      indexPairs d ! (2 * nat (?other ! k)) = 0 \<and>
      indexPairs d ! (2 * nat (?other ! k) + 1) = int k \<and>
      free_positions d ! k = ap ! nat (?other ! k)"
  proof (intro allI impI)
    fix k assume k: "k < length ?other"
    let ?v = "?other ! k"
    from k have mem: "?v \<in> set ?other" by simp
    with F(2) have v: "0 \<le> ?v" "?v < int n" "?v \<notin> set ?sel" unfolding set_range by auto
    have i': "nat ?v < length (map int [0..<n])" using v by simp
    have nth_i: "map int [0..<n] ! nat ?v = ?v" using v by simp
    have pair: "Kd_pair ?other ?sel ?v = [0, int k]"
      using v(3) mem by (simp add: Kd_pair_def last_index_of_distinct [OF F(3)]
          index_of_nth_distinct [OF F(3) k])
    from concat_pairs_nth [OF two i'] F(1) nth_i pair
    have p: "indexPairs d ! (2 * nat ?v) = 0" "indexPairs d ! (2 * nat ?v + 1) = int k" by simp_all
    from nf k have "py_getitem ap ?v = Inr (free_positions d ! k)" by simp
    moreover have "py_getitem ap ?v = Inr (ap ! nat ?v)"
      using py_getitem_nonneg [of ?v ap] v len by simp
    ultimately have "free_positions d ! k = ap ! nat ?v" by simp
    with p show "indexPairs d ! (2 * nat ?v) = 0 \<and> indexPairs d ! (2 * nat ?v + 1) = int k \<and>
      free_positions d ! k = ap ! nat ?v" by simp
  qed
  from s F(3) lf each show ?thesis by simp
qed

theorem free_indices_listed_once_witness:
  "Rigidify slot_ext ''body'' (line_positions 9) (map int [0..<9]) (line_points 9)
     [[0, 2, 3, 4, 5, 6, 7]] (Some [[0, 0, 0, 0, 0, 0, 1]]) None None = Inr nine_point_result \<and>
   groups_in_range 9 [[0, 2, 3, 4, 5, 6, 7]] \<and>
   lists_set (list_of_set slot_ext) (set (map int [0..<9]) - set (concat [[0, 2, 3, 4, 5, 6, 7]])) \<and>
   set (otherIndices nine_point_result) =
     {i. 0 \<le> i \<and> i < int 9} - (\<Union>g \<in> set [[0, 2, 3, 4, 5, 6, 7]]. set g) \<and>
   distinct (otherIndices nine_point_result) \<and>
   otherIndices nine_point_result ! 0 = 8 \<and>
   indexPairs nine_point_result ! (2 * nat (otherIndices nine_point_result ! 0)) = 0 \<and>
   indexPairs nine_point_result ! (2 * nat (otherIndices nine_point_result ! 0) + 1) = int 0 \<and>
   free_positions nine_point_result ! 0 = line_positions 9 ! nat (otherIndices nine_point_result ! 0)"
proof -
  have len: "length (line_positions 9) = 9" by (simp add: line_positions_def)
  have range: "groups_in_range 9 [[0, 2, 3, 4, 5, 6, 7]]" by (simp add: groups_in_range_def)
  have order: "lists_set (list_of_set slot_ext)
      (set (map int [0..<9]) - set (concat [[0, 2, 3, 4, 5, 6, 7]]))"
    by (simp add: slot_ext_def lists_set_slot_order)
  have k: "(0 :: nat) < length (otherIndices nine_point_result)"
    by (simp add: nine_point_result_def)
  have first: "otherIndices nine_point_result ! 0 = 8" by (simp add: nine_point_result_def)
  from free_indices_listed_once [OF nine_point_run len range order] k
  have "set (otherIndices nine_point_result) =
     {i. 0 \<le> i \<and> i < int 9} - (\<Union>g \<in> set [[0, 2, 3, 4, 5, 6, 7]]. set g) \<and>
   distinct (otherIndices nine_point_result) \<and>
   indexPairs nine_point_result ! (2 * nat (otherIndices nine_point_result ! 0)) = 0 \<and>
   indexPairs nine_point_result ! (2 * nat (otherIndices nine_point_result ! 0) + 1) = int 0 \<and>
   free_positions nine_point_result ! 0 = line_positions 9 ! nat (otherIndices nine_point_result ! 0)"
    by blast
  with nine_point_run range order first show ?thesis by blast
qed

subsection \<open>C7: indices outside the body\<close>

text \<open>
  C7 as stated fails: the index \<open>- 1\<close> is outside the range of a body of three points,
  and the call returns a result; the rigidified container holds the last point.
\<close>

theorem negative_index_accepted:
  "Rigidify example_ext ''body'' (line_positions 3) (map int [0..<3]) (line_points 3)
     [[- 1]] (Some [[0, 0, 0, 0, 0, 0, 1]]) None None = Inr negative_index_result \<and>
   \<not> groups_in_range 3 [[- 1]]"
  using negative_index_run by (simp add: groups_in_range_def)

text \<open>
  C7, amended. When the sizes agree and every frame is a pose, the call raises IndexError
  exactly when some group holds an index \<open>j\<close> with \<open>j \<ge> n\<close> or \<open>j < - n\<close>. When every index
  is in \<open>- n, \<dots>, n - 1\<close> it returns a result whose rigidified container holds, for every
  listed index \<open>j\<close>, the position of point \<open>j\<close> when \<open>j \<ge> 0\<close> and of point \<open>n + j\<close> when
  \<open>j < 0\<close>: a negative index is read from the end of the positions.
\<close>

theorem index_error_iff_not_subscriptable:
  assumes fs: "resolve_frames gs frames fo = fs"
    and ai: "ai = map int [0..<n]"
    and sp: "length sp = n"
    and ap: "length ap = n"
    and len: "length gs = length fs"
    and frames_ok: "all_frames_ok fs"
    and order: "lists_set (list_of_set ext) (set ai - set (concat gs))"
  shows "(Rigidify ext sn ap ai sp gs frames name fo = Inl IndexError \<longleftrightarrow>
            \<not> groups_subscriptable n gs) \<and>
         (groups_subscriptable n gs \<longrightarrow>
            (\<exists>d. Rigidify ext sn ap ai sp gs frames name fo = Inr d \<and>
                 selectedIndices d = concat gs \<and>
                 rigidified_positions d =
                   map (\<lambda>j. if 0 \<le> j then ap ! nat j else ap ! nat (int n + j)) (concat gs)))"
proof -
  note T = Rigidify_total [OF fs ai sp ap len frames_ok order, of sn name]
  show ?thesis
  proof (cases "groups_subscriptable n gs")
    case True
    from T(1) [OF True] obtain d where ok: "Rigidify ext sn ap ai sp gs frames name fo = Inr d"
      by blast
    note R = Rigidify_Inr [OF ok]
    from gather_Inr_map [OF R(7)] have
      "rigidified_positions d =
         map (\<lambda>j. if 0 \<le> j then ap ! nat j else ap ! nat (int n + j)) (concat gs)"
      unfolding R(3) ap .
    with ok R(3) True show ?thesis by auto
  next
    case False
    from T(2) [OF False] show ?thesis using False by simp
  qed
qed

theorem index_error_iff_not_subscriptable_witness:
  "all_frames_ok [[0, 0, 0, 0, 0, 0, 1 :: real]] \<and>
   lists_set (list_of_set example_ext) (set (map int [0..<3]) - set (concat [[3]])) \<and>
   \<not> groups_subscriptable 3 [[3]] \<and>
   Rigidify example_ext ''body'' (line_positions 3) (map int [0..<3]) (line_points 3)
     [[3]] (Some [[0, 0, 0, 0, 0, 0, 1]]) None None = Inl IndexError \<and>
   lists_set (list_of_set example_ext) (set (map int [0..<3]) - set (concat [[- 1]])) \<and>
   groups_subscriptable 3 [[- 1]] \<and>
   (\<exists>d. Rigidify example_ext ''body'' (line_positions 3) (map int [0..<3]) (line_points 3)
          [[- 1]] (Some [[0, 0, 0, 0, 0, 0, 1]]) None None = Inr d \<and>
        selectedIndices d = concat [[- 1]] \<and>
        rigidified_positions d =
          map (\<lambda>j. if 0 \<le> j then line_positions 3 ! nat j
                   else line_positions 3 ! nat (int 3 + j)) (concat [[- 1]])) \<and>
   map (\<lambda>j. if 0 \<le> j then line_positions 3 ! nat j
            else line_positions 3 ! nat (int 3 + j)) (concat [[- 1]]) = [[2, 0, 0]]"
proof -
  have sp: "length (line_points 3) = 3" by (simp add: line_points_def)
  have ap: "length (line_positions 3) = 3" by (simp add: line_positions_def)
  have fs: "resolve_frames [[3]] (Some [[0, 0, 0, 0, 0, 0, 1 :: real]]) None = [[0, 0, 0, 0, 0, 0, 1]]"
    by (simp add: resolve_frames_def)
  have len: "length [[3 :: int]] = length [[0, 0, 0, 0, 0, 0, 1 :: real]]" by simp
  have frames_ok: "all_frames_ok [[0, 0, 0, 0, 0, 0, 1 :: real]]"
    by (simp add: all_frames_ok_def frame_ok_def)
  have order: "lists_set (list_of_set example_ext) (set (map int [0..<3]) - set (concat [[3]]))"
    by (simp add: example_ext_def lists_set_sorted)
  have beyond: "\<not> groups_subscriptable 3 [[3]]" by (simp add: groups_subscriptable_def)
  from index_error_iff_not_subscriptable [OF fs refl sp ap len frames_ok order,
      of "''body''" None] beyond
  have raised: "Rigidify example_ext ''body'' (line_positions 3) (map int [0..<3]) (line_points 3)
     [[3]] (Some [[0, 0, 0, 0, 0, 0, 1]]) None None = Inl IndexError"
    by simp
  have fs': "resolve_frames [[- 1]] (Some [[0, 0, 0, 0, 0, 0, 1 :: real]]) None = [[0, 0, 0, 0, 0, 0, 1]]"
    by (simp add: resolve_frames_def)
  have len': "length [[- 1 :: int]] = length [[0, 0, 0, 0, 0, 0, 1 :: real]]" by simp
  have order': "lists_set (list_of_set example_ext) (set (map int [0..<3]) - set (concat [[- 1]]))"
    by (simp add: example_ext_def lists_set_sorted)
  have within: "groups_subscriptable 3 [[- 1]]" by (simp add: groups_subscriptable_def)
  from index_error_iff_not_subscriptable [OF fs' refl sp ap len' frames_ok order',
      of "''body''" None] within
  have returned: "\<exists>d. Rigidify example_ext ''body'' (line_positions 3) (map int [0..<3]) (line_points 3)
          [[- 1]] (Some [[0, 0, 0, 0, 0, 0, 1]]) None None = Inr d \<and>
        selectedIndices d = concat [[- 1]] \<and>
        rigidified_positions d =
          map (\<lambda>j. if 0 \<le> j then line_positions 3 ! nat j
                   else line_positions 3 ! nat (int 3 + j)) (concat [[- 1]])"
    by blast
  have last: "map (\<lambda>j. if 0 \<le> j then line_positions 3 ! nat j
            else line_positions 3 ! nat (int 3 + j)) (concat [[- 1]]) = [[2, 0, 0]]"
    by (simp add: line_positions_def upt_rec)
  from frames_ok order beyond raised order' within returned last show ?thesis by blast
qed

subsection \<open>C8: groups that overlap\<close>

text \<open>
  C8 as stated fails: two groups that both list index \<open>0\<close> raise nothing; the index is
  rigidified twice, once for each group.
\<close>

theorem overlapping_groups_no_error:
  "Rigidify example_ext ''body'' (line_positions 3) (map int [0..<3]) (line_points 3)
     [[0], [0]] (Some [[0, 0, 0, 0, 0, 0, 1], [0, 0, 0, 0, 0, 0, 1]]) None None = Inr overlap_result \<and>
   \<not> distinct (concat [[0], [0 :: int]]) \<and>
   selectedIndices overlap_result = [0, 0] \<and>
   rigidIndexPerPoint overlap_result = [0, 1]"
  using overlap_run by (simp add: overlap_result_def)

text \<open>
  C8, amended. Overlap is not checked. When the sizes agree, every frame is a pose and the
  indices are in range, the call returns a result whether or not the groups overlap: the
  rigidified container has one entry per listed index, shared indices included, each
  owned by the group that lists it, and the index pairs send a shared index to its last
  entry.
\<close>

theorem overlapping_groups_accepted:
  assumes fs: "resolve_frames gs frames fo = fs"
    and sp: "length sp = n"
    and ap: "length ap = n"
    and len: "length gs = length fs"
    and frames_ok: "all_frames_ok fs"
    and order: "lists_set (list_of_set ext) (set (map int [0..<n]) - set (concat gs))"
    and range: "groups_in_range n gs"
  shows "\<exists>d. Rigidify ext sn ap (map int [0..<n]) sp gs frames name fo = Inr d \<and>
             selectedIndices d = concat gs \<and>
             rigidIndexPerPoint d = owner_per_point gs \<and>
             length (rigidified_positions d) = length (concat gs) \<and>
             indexPairs d =
               concat (map (Kd_pair (otherIndices d) (concat gs)) (map int [0..<n]))"
proof -
  from Rigidify_total(1) [OF fs refl sp ap len frames_ok order in_range_subscriptable [OF range], of sn name]
  obtain d where ok: "Rigidify ext sn ap (map int [0..<n]) sp gs frames name fo = Inr d" by blast
  note R = Rigidify_Inr [OF ok]
  note F = Rigidify_indexPairs [OF ok range order]
  from group_loop_owner [OF R(2)] have own: "rigidIndexPerPoint d = owner_per_point gs" .
  from gather_Inr_nth [OF R(7)] have "length (rigidified_positions d) = length (selectedIndices d)"
    by simp
  with ok R(3) own F(1) show ?thesis by auto
qed

theorem overlapping_groups_accepted_witness:
  "all_frames_ok [[0, 0, 0, 0, 0, 0, 1 :: real], [0, 0, 0, 0, 0, 0, 1]] \<and>
   lists_set (list_of_set example_ext) (set (map int [0..<3]) - set (concat [[0], [0]])) \<and>
   groups_in_range 3 [[0], [0]] \<and>
   (\<exists>d. Rigidify example_ext ''body'' (line_positions 3) (map int [0..<3]) (line_points 3)
          [[0], [0]] (Some [[0, 0, 0, 0, 0, 0, 1], [0, 0, 0, 0, 0, 0, 1]]) None None = Inr d \<and>
        selectedIndices d = concat [[0], [0]] \<and>
        rigidIndexPerPoint d = owner_per_point [[0], [0]] \<and>
        length (rigidified_positions d) = length (concat [[0], [0 :: int]]) \<and>
        indexPairs d =
          concat (map (Kd_pair (otherIndices d) (concat [[0], [0]])) (map int [0..<3])))"
proof -
  have sp: "length (line_points 3) = 3" by (simp add: line_points_def)
  have ap: "length (line_positions 3) = 3" by (simp add: line_positions_def)
  have fs: "resolve_frames [[0], [0]] (Some [[0, 0, 0, 0, 0, 0, 1 :: real], [0, 0, 0, 0, 0, 0, 1]]) None =
      [[0, 0, 0, 0, 0, 0, 1], [0, 0, 0, 0, 0, 0, 1]]"
    by (simp add: resolve_frames_def)
  have len: "length [[0 :: int], [0]] = length [[0, 0, 0, 0, 0, 0, 1 :: real], [0, 0, 0, 0, 0, 0, 1]]"
    by simp
  have frames_ok: "all_frames_ok [[0, 0, 0, 0, 0, 0, 1 :: real], [0, 0, 0, 0, 0, 0, 1]]"
    by (simp add: all_frames_ok_def frame_ok_def)
  have order: "lists_set (list_of_set example_ext) (set (map int [0..<3]) - set (concat [[0], [0]]))"
    by (simp add: example_ext_def lists_set_sorted)
  have range: "groups_in_range 3 [[0], [0]]" by (simp add: groups_in_range_def)
  from overlapping_groups_accepted [OF fs sp ap len frames_ok order range, of "''body''" None]
    frames_ok order range
  show ?thesis by blast
qed

subsection \<open>C9: a second invocation\<close>




subsection \<open>C10: the deprecated parameter\<close>


end
